theory Spec2Isabelle
  imports Complex_Main "HOL-Library.Word"
begin

unbundle bit_operations_syntax

section \<open>Single-precision floating point\<close>

text \<open>
  Every coordinate and velocity of the program is a C++ \<open>float\<close>. The model is IEEE-754
  binary32 with round-to-nearest-even, each operation rounded on its own: a value is a
  NaN, an infinity, or a finite number kept as the exact rational it denotes. The sign of
  zero and NaN payloads are not kept: the comparisons and conversions of the program
  treat both zeros alike, and its one division is by a converted \<open>int\<close>.

  All finite binary32 numbers are integer multiples of \<open>2 ^ -149\<close>. Rounding works on the
  magnitude scaled by \<open>2 ^ 149\<close>: below \<open>2 ^ 24\<close> units the spacing is one unit (subnormals
  and the first normal binade), above it the spacing is the power of two that leaves 24
  significant bits (\<open>quantum_exp\<close> is its exponent). \<open>rne\<close> rounds to the nearest
  integer, ties to even. A rounded magnitude of \<open>2 ^ 128\<close> or more overflows to infinity.
\<close>

datatype float = NaN | PInf | NInf | Fin rat

definition rne :: "rat \<Rightarrow> int" where
  "rne q = (let f = \<lfloor>q\<rfloor>; r = q - of_int f
            in if r < 1 / 2 then f
               else if 1 / 2 < r then f + 1
               else if even f then f else f + 1)"

function quantum_exp :: "int \<Rightarrow> nat" where
  "quantum_exp m = (if m < 2 ^ 24 then 0 else Suc (quantum_exp (m div 2)))"
  by pat_completeness auto
termination
  by (relation "measure nat") auto

declare quantum_exp.simps [simp del]

definition round_units :: "rat \<Rightarrow> int" where
  "round_units s = (let e = quantum_exp \<lfloor>s\<rfloor> in rne (s / 2 ^ e) * 2 ^ e)"

definition round32 :: "rat \<Rightarrow> float" where
  "round32 r = (let n = round_units (\<bar>r\<bar> * 2 ^ 149)
                in if 2 ^ 277 \<le> n then (if r < 0 then NInf else PInf)
                   else Fin (sgn r * of_int n / 2 ^ 149))"

definition is_float32 :: "rat \<Rightarrow> bool" where
  "is_float32 r \<longleftrightarrow> round32 r = Fin r"

fun fneg :: "float \<Rightarrow> float" where
  "fneg NaN = NaN"
| "fneg PInf = NInf"
| "fneg NInf = PInf"
| "fneg (Fin a) = Fin (- a)"

fun fadd :: "float \<Rightarrow> float \<Rightarrow> float" where
  "fadd NaN _ = NaN"
| "fadd _ NaN = NaN"
| "fadd PInf NInf = NaN"
| "fadd NInf PInf = NaN"
| "fadd PInf _ = PInf"
| "fadd _ PInf = PInf"
| "fadd NInf _ = NInf"
| "fadd _ NInf = NInf"
| "fadd (Fin a) (Fin b) = round32 (a + b)"

definition fsub :: "float \<Rightarrow> float \<Rightarrow> float" where
  "fsub a b = fadd a (fneg b)"

fun fmul :: "float \<Rightarrow> float \<Rightarrow> float" where
  "fmul NaN _ = NaN"
| "fmul _ NaN = NaN"
| "fmul (Fin a) (Fin b) = round32 (a * b)"
| "fmul (Fin a) PInf = (if a = 0 then NaN else if 0 < a then PInf else NInf)"
| "fmul (Fin a) NInf = (if a = 0 then NaN else if 0 < a then NInf else PInf)"
| "fmul PInf (Fin b) = (if b = 0 then NaN else if 0 < b then PInf else NInf)"
| "fmul NInf (Fin b) = (if b = 0 then NaN else if 0 < b then NInf else PInf)"
| "fmul PInf PInf = PInf"
| "fmul NInf NInf = PInf"
| "fmul PInf NInf = NInf"
| "fmul NInf PInf = NInf"

text \<open>
  \<open>a / b\<close>. The one division of the program is by \<open>(float)RAND_MAX\<close>, the conversion of
  an \<open>int\<close>, where a zero is \<open>+0\<close>: a zero divisor is taken as positive.
\<close>

fun fdiv :: "float \<Rightarrow> float \<Rightarrow> float" where
  "fdiv NaN _ = NaN"
| "fdiv _ NaN = NaN"
| "fdiv (Fin a) (Fin b) =
     (if b = 0 then (if a = 0 then NaN else if 0 < a then PInf else NInf)
      else round32 (a / b))"
| "fdiv (Fin a) PInf = Fin 0"
| "fdiv (Fin a) NInf = Fin 0"
| "fdiv PInf (Fin b) = (if 0 \<le> b then PInf else NInf)"
| "fdiv NInf (Fin b) = (if 0 \<le> b then NInf else PInf)"
| "fdiv PInf PInf = NaN"
| "fdiv PInf NInf = NaN"
| "fdiv NInf PInf = NaN"
| "fdiv NInf NInf = NaN"

text \<open>The comparisons \<open><\<close>, \<open>></\<close> and \<open><=\<close>: false as soon as one side is a NaN.\<close>

fun flt :: "float \<Rightarrow> float \<Rightarrow> bool" where
  "flt NaN _ = False"
| "flt _ NaN = False"
| "flt _ NInf = False"
| "flt PInf _ = False"
| "flt NInf _ = True"
| "flt (Fin a) PInf = True"
| "flt (Fin a) (Fin b) = (a < b)"

definition fgt :: "float \<Rightarrow> float \<Rightarrow> bool" where
  "fgt a b = flt b a"

fun fle :: "float \<Rightarrow> float \<Rightarrow> bool" where
  "fle NaN _ = False"
| "fle _ NaN = False"
| "fle NInf _ = True"
| "fle _ PInf = True"
| "fle _ NInf = False"
| "fle PInf _ = False"
| "fle (Fin a) (Fin b) = (a \<le> b)"

text \<open>\<open>(float)i\<close> for an \<open>int\<close>.\<close>

definition float_of_int :: "int \<Rightarrow> float" where
  "float_of_int i = round32 (of_int i)"

text \<open>
  \<open>(unsigned int)f\<close> truncates towards zero. C++ leaves the conversion undefined when the
  truncated value is not an \<open>unsigned int\<close> (a NaN, an infinity, \<open>f \<le> -1\<close> or
  \<open>f \<ge> 2 ^ 32\<close>); the word a given platform produces there is the parameter \<open>ub\<close>, about
  which nothing is assumed.
\<close>

definition float_truncate :: "rat \<Rightarrow> int" where
  "float_truncate r = (if 0 \<le> r then \<lfloor>r\<rfloor> else \<lceil>r\<rceil>)"

fun uint_of_float :: "(float \<Rightarrow> 32 word) \<Rightarrow> float \<Rightarrow> 32 word" where
  "uint_of_float ub (Fin r) =
     (if - 1 < r \<and> r < 2 ^ 32 then word_of_int (float_truncate r) else ub (Fin r))"
| "uint_of_float ub f = ub f"

text \<open>
  \<open>(uint8_t)f\<close>, undefined like \<open>(unsigned int)f\<close> when the truncated value is not a
  \<open>uint8_t\<close>; \<open>ub8\<close> is what the platform produces there.
\<close>

fun uint8_of_float :: "(float \<Rightarrow> 8 word) \<Rightarrow> float \<Rightarrow> 8 word" where
  "uint8_of_float ub8 (Fin r) =
     (if - 1 < r \<and> r < 2 ^ 8 then word_of_int (float_truncate r) else ub8 (Fin r))"
| "uint8_of_float ub8 f = ub8 f"

section \<open>Components and the scene\<close>

text \<open>
  The structs of \<open>game.cpp\<close>. The fields \<open>x\<close> and \<open>y\<close> of \<open>PositionComponent\<close> are
  \<open>pos_x\<close> and \<open>pos_y\<close> here.
\<close>

record PositionComponent =
  pos_x :: float
  pos_y :: float

record SpriteComponent =
  colorR :: "8 word"
  colorG :: "8 word"
  colorB :: "8 word"
  spriteIndex :: "8 word"

record WorldBoundsComponent =
  xMin :: int
  xMax :: int
  yMin :: int
  yMax :: int

record MoveComponent =
  velx :: float
  vely :: float

type_synonym EntityID = nat

record Entities =
  m_Positions :: "PositionComponent list"
  m_Sprites :: "SpriteComponent list"
  m_Moves :: "MoveComponent list"
  m_IdGenerator :: EntityID

definition s_WorldBounds :: WorldBoundsComponent where
  "s_WorldBounds = \<lparr>xMin = - 128, xMax = 128, yMin = - 64, yMax = 64\<rparr>"

text \<open>
  The two population constants are a parameter of every system, so that the systems can
  also be run on a small scene; the program is the instance \<open>game_constants\<close>.
\<close>

record constants =
  kObjectCount :: nat
  kAvoidCount :: nat

definition game_constants :: constants where
  "game_constants = \<lparr>kObjectCount = 1000000, kAvoidCount = 20\<rparr>"

text \<open>
  Reading or writing an array outside its bounds is undefined behaviour in the source; in
  the model it is the error \<open>OutOfBounds\<close>, and a loop stops at the first error.
\<close>

datatype error = OutOfBounds

fun for_loop :: "'i list \<Rightarrow> ('i \<Rightarrow> 's \<Rightarrow> error + 's) \<Rightarrow> 's \<Rightarrow> error + 's" where
  "for_loop [] body s = Inr s"
| "for_loop (i # is) body s =
     (case body i s of Inl e \<Rightarrow> Inl e | Inr s' \<Rightarrow> for_loop is body s')"

section \<open>The move system\<close>

text \<open>
  The body of the loop of \<open>MoveSystem::UpdateSystem\<close> for one entity: integrate, then
  the four bound checks in the order of the source, each on the values the previous ones
  left. The \<open>int\<close> bounds are converted to \<open>float\<close> for the comparisons.
\<close>

definition MoveSystem_body ::
  "float \<Rightarrow> PositionComponent \<times> MoveComponent \<Rightarrow> PositionComponent \<times> MoveComponent" where
  "MoveSystem_body deltaTime pm =
     (let (pos, move) = pm;
          pos = pos\<lparr>pos_x := fadd (pos_x pos) (fmul (velx move) deltaTime)\<rparr>;
          pos = pos\<lparr>pos_y := fadd (pos_y pos) (fmul (vely move) deltaTime)\<rparr>;
          (pos, move) =
            (if flt (pos_x pos) (float_of_int (xMin s_WorldBounds))
             then (pos\<lparr>pos_x := float_of_int (xMin s_WorldBounds)\<rparr>,
                   move\<lparr>velx := fneg (velx move)\<rparr>)
             else (pos, move));
          (pos, move) =
            (if fgt (pos_x pos) (float_of_int (xMax s_WorldBounds))
             then (pos\<lparr>pos_x := float_of_int (xMax s_WorldBounds)\<rparr>,
                   move\<lparr>velx := fneg (velx move)\<rparr>)
             else (pos, move));
          (pos, move) =
            (if flt (pos_y pos) (float_of_int (yMin s_WorldBounds))
             then (pos\<lparr>pos_y := float_of_int (yMin s_WorldBounds)\<rparr>,
                   move\<lparr>vely := fneg (vely move)\<rparr>)
             else (pos, move));
          (pos, move) =
            (if fgt (pos_y pos) (float_of_int (yMax s_WorldBounds))
             then (pos\<lparr>pos_y := float_of_int (yMax s_WorldBounds)\<rparr>,
                   move\<lparr>vely := fneg (vely move)\<rparr>)
             else (pos, move))
      in (pos, move))"

definition MoveSystem_step :: "float \<Rightarrow> EntityID \<Rightarrow> Entities \<Rightarrow> error + Entities" where
  "MoveSystem_step deltaTime io s =
     (if io < length (m_Positions s) \<and> io < length (m_Moves s)
      then let (pos, move) = MoveSystem_body deltaTime (m_Positions s ! io, m_Moves s ! io)
           in Inr (s\<lparr>m_Positions := (m_Positions s)[io := pos],
                     m_Moves := (m_Moves s)[io := move]\<rparr>)
      else Inl OutOfBounds)"

text \<open>The parameter \<open>time\<close> of both systems is never read and is left out.\<close>

definition MoveSystem_UpdateSystem :: "constants \<Rightarrow> Entities \<Rightarrow> float \<Rightarrow> error + Entities" where
  "MoveSystem_UpdateSystem c s deltaTime =
     for_loop [0 ..< kObjectCount c + kAvoidCount c] (MoveSystem_step deltaTime) s"

section \<open>The avoidance system\<close>

definition kAvoidDistance :: float where
  "kAvoidDistance = round32 (13 / 10)"

definition kCellCount :: "32 word" where
  "kCellCount = 64"

definition kShiftAmount :: nat where
  "kShiftAmount = 6"

definition kGridCellSize :: "32 word list" where
  "kGridCellSize =
     [word_of_int (xMax s_WorldBounds - xMin s_WorldBounds) div kCellCount,
      word_of_int (yMax s_WorldBounds - yMin s_WorldBounds) div kCellCount]"

text \<open>
  The grid: \<open>avoidEntityGrid[hash][slot]\<close> is static and keeps its contents from one call
  to the next; \<open>activeAvoidCount[hash]\<close> is local and starts at zero in every call.
\<close>

type_synonym grid = "nat \<Rightarrow> nat \<Rightarrow> EntityID"
type_synonym counts = "nat \<Rightarrow> 32 word"

text \<open>\<open>t - ((t & kCellCount) >> kShiftAmount)\<close>, applied to every cell coordinate.\<close>

definition wrap_cell :: "32 word \<Rightarrow> 32 word" where
  "wrap_cell t = t - drop_bit kShiftAmount (t AND kCellCount)"

definition cell_hash :: "32 word \<Rightarrow> 32 word \<Rightarrow> 32 word" where
  "cell_hash x y = push_bit kShiftAmount x OR y"

text \<open>
  \<open>for (unsigned int v = lo; v <= hi; ++v)\<close>. Every upper bound of the program is a
  quotient by 4 or by 2, so \<open>hi\<close> is below \<open>2 ^ 32 - 1\<close> and the loop ends after \<open>hi\<close>.
\<close>

definition word_range :: "32 word \<Rightarrow> 32 word \<Rightarrow> 32 word list" where
  "word_range lo hi = map word_of_nat [unat lo ..< Suc (unat hi)]"

text \<open>The innermost statements of the build: lines 190 to 192.\<close>

definition grid_insert ::
  "constants \<Rightarrow> EntityID \<Rightarrow> 32 word \<Rightarrow> 32 word \<Rightarrow> grid \<times> counts \<Rightarrow> error + grid \<times> counts" where
  "grid_insert c ia y x gc =
     (let (avoidEntityGrid, activeAvoidCount) = gc;
          hash = cell_hash x y
      in if unat hash < unat (kCellCount * kCellCount)
            \<and> unat (activeAvoidCount (unat hash)) < kAvoidCount c
         then Inr (avoidEntityGrid(unat hash :=
                     (avoidEntityGrid (unat hash))(unat (activeAvoidCount (unat hash)) := ia)),
                   activeAvoidCount(unat hash := activeAvoidCount (unat hash) + 1))
         else Inl OutOfBounds)"

text \<open>The body of the loop over the hazards: lines 176 to 194.\<close>

definition grid_add ::
  "constants \<Rightarrow> (float \<Rightarrow> 32 word) \<Rightarrow> PositionComponent list \<Rightarrow> EntityID \<Rightarrow>
     grid \<times> counts \<Rightarrow> error + grid \<times> counts" where
  "grid_add c ub positionsData ia gc =
     (if ia < length positionsData
      then
        let avoidposition = positionsData ! ia;
            topRight0 = uint_of_float ub
                (fsub (fadd (pos_x avoidposition) kAvoidDistance) (float_of_int (xMin s_WorldBounds)))
              div kGridCellSize ! 0;
            topRight1 = uint_of_float ub
                (fsub (fadd (pos_y avoidposition) kAvoidDistance) (float_of_int (yMin s_WorldBounds)))
              div kGridCellSize ! 1;
            topRight0 = wrap_cell topRight0;
            topRight1 = wrap_cell topRight1;
            bottomLeft0 = uint_of_float ub
                (fsub (fsub (pos_x avoidposition) kAvoidDistance) (float_of_int (xMin s_WorldBounds)))
              div kGridCellSize ! 0;
            bottomLeft1 = uint_of_float ub
                (fsub (fsub (pos_y avoidposition) kAvoidDistance) (float_of_int (yMin s_WorldBounds)))
              div kGridCellSize ! 1;
            bottomLeft0 = wrap_cell bottomLeft0;
            bottomLeft1 = wrap_cell bottomLeft1
        in for_loop (word_range bottomLeft1 topRight1)
             (\<lambda>y. for_loop (word_range bottomLeft0 topRight0) (grid_insert c ia y)) gc
      else Inl OutOfBounds)"

text \<open>The first loop of \<open>AvoidanceSystem::UpdateSystem\<close>, from zeroed counters.\<close>

definition rebuild_grid ::
  "constants \<Rightarrow> (float \<Rightarrow> 32 word) \<Rightarrow> PositionComponent list \<Rightarrow> grid \<Rightarrow> error + grid \<times> counts" where
  "rebuild_grid c ub positionsData avoidEntityGrid =
     for_loop [kObjectCount c ..< kObjectCount c + kAvoidCount c]
       (grid_add c ub positionsData) (avoidEntityGrid, \<lambda>hash. 0)"

text \<open>
  The cell a regular entity looks into: lines 202 to 208. The second assignment to \<open>x\<close>
  is the one of the source, from \<open>y\<close>.
\<close>

definition query_hash :: "(float \<Rightarrow> 32 word) \<Rightarrow> PositionComponent \<Rightarrow> 32 word" where
  "query_hash ub myposition =
     (let x = uint_of_float ub (fsub (pos_x myposition) (float_of_int (xMin s_WorldBounds)))
                div kGridCellSize ! 0;
          x = x - drop_bit kShiftAmount (x AND kCellCount);
          y = uint_of_float ub (fsub (pos_y myposition) (float_of_int (yMin s_WorldBounds)))
                div kGridCellSize ! 1;
          x = y - drop_bit kShiftAmount (y AND kCellCount)
      in push_bit kShiftAmount x OR y)"

text \<open>The test of line 219.\<close>

definition too_close :: "PositionComponent \<Rightarrow> PositionComponent \<Rightarrow> bool" where
  "too_close avoidposition myposition =
     (let dx = fsub (pos_x avoidposition) (pos_x myposition);
          dy = fsub (pos_y avoidposition) (pos_y myposition)
      in flt (fsub (fadd (fmul dx dx) (fmul dy dy)) (fmul kAvoidDistance kAvoidDistance))
             (Fin 0))"

text \<open>The body of the loop over one bucket: lines 213 to 237.\<close>

definition avoid_step ::
  "constants \<Rightarrow> grid \<Rightarrow> 32 word \<Rightarrow> float \<Rightarrow> EntityID \<Rightarrow> nat \<Rightarrow> Entities \<Rightarrow> error + Entities" where
  "avoid_step c avoidEntityGrid hash deltaTime io ia s =
     (if ia < kAvoidCount c
      then
        let avoid = avoidEntityGrid (unat hash) ia
        in if avoid < length (m_Positions s) \<and> io < length (m_Positions s)
           then
             let avoidposition = m_Positions s ! avoid;
                 myposition = m_Positions s ! io
             in if too_close avoidposition myposition
                then
                  if io < length (m_Moves s) \<and> avoid < length (m_Sprites s)
                     \<and> io < length (m_Sprites s)
                  then
                    let move = m_Moves s ! io;
                        move = move\<lparr>velx := fneg (velx move)\<rparr>;
                        move = move\<lparr>vely := fneg (vely move)\<rparr>;
                        myposition = myposition\<lparr>pos_x := fadd (pos_x myposition)
                            (fmul (fmul (velx move) deltaTime) (round32 (11 / 10)))\<rparr>;
                        myposition = myposition\<lparr>pos_y := fadd (pos_y myposition)
                            (fmul (fmul (vely move) deltaTime) (round32 (11 / 10)))\<rparr>;
                        avoidSprite = m_Sprites s ! avoid;
                        mySprite = m_Sprites s ! io;
                        mySprite = mySprite\<lparr>colorR := colorR avoidSprite,
                                            colorG := colorG avoidSprite,
                                            colorB := colorB avoidSprite\<rparr>
                    in Inr (s\<lparr>m_Positions := (m_Positions s)[io := myposition],
                              m_Sprites := (m_Sprites s)[io := mySprite],
                              m_Moves := (m_Moves s)[io := move]\<rparr>)
                  else Inl OutOfBounds
                else Inr s
           else Inl OutOfBounds
      else Inl OutOfBounds)"

text \<open>The body of the loop over the regular entities: lines 200 to 238.\<close>

definition avoid_query ::
  "constants \<Rightarrow> (float \<Rightarrow> 32 word) \<Rightarrow> grid \<times> counts \<Rightarrow> float \<Rightarrow> EntityID \<Rightarrow> Entities \<Rightarrow>
     error + Entities" where
  "avoid_query c ub gc deltaTime io s =
     (let (avoidEntityGrid, activeAvoidCount) = gc
      in if io < length (m_Positions s)
         then
           let hash = query_hash ub (m_Positions s ! io)
           in if unat hash < unat (kCellCount * kCellCount)
              then for_loop [0 ..< unat (activeAvoidCount (unat hash))]
                     (avoid_step c avoidEntityGrid hash deltaTime io) s
              else Inl OutOfBounds
         else Inl OutOfBounds)"

definition AvoidanceSystem_UpdateSystem ::
  "constants \<Rightarrow> (float \<Rightarrow> 32 word) \<Rightarrow> grid \<times> Entities \<Rightarrow> float \<Rightarrow> error + grid \<times> Entities" where
  "AvoidanceSystem_UpdateSystem c ub gs deltaTime =
     (let (avoidEntityGrid, s) = gs
      in case rebuild_grid c ub (m_Positions s) avoidEntityGrid of
           Inl e \<Rightarrow> Inl e
         | Inr gc \<Rightarrow>
             (case for_loop [0 ..< kObjectCount c] (avoid_query c ub gc deltaTime) s of
                Inl e \<Rightarrow> Inl e
              | Inr s' \<Rightarrow> Inr (fst gc, s')))"

section \<open>Initialisation\<close>

text \<open>
  What the program takes from the C library: the values that the successive calls of
  \<open>rand()\<close> return, the constant \<open>RAND_MAX\<close>, and the functions \<open>cosf\<close> and \<open>sinf\<close>.
  Nothing is assumed about them. The functions that draw a random number take the number
  of calls of \<open>rand()\<close> made so far and return it increased.
\<close>

record libc =
  rand :: "nat \<Rightarrow> int"
  RAND_MAX :: int
  cosf :: "float \<Rightarrow> float"
  sinf :: "float \<Rightarrow> float"

definition RandomFloat01 :: "libc \<Rightarrow> nat \<Rightarrow> float \<times> nat" where
  "RandomFloat01 L k = (fdiv (float_of_int (rand L k)) (float_of_int (RAND_MAX L)), Suc k)"

text \<open>The two overloads of \<open>RandomFloat\<close>, for \<open>float\<close> and for \<open>int\<close> arguments.\<close>

definition RandomFloat :: "libc \<Rightarrow> float \<Rightarrow> float \<Rightarrow> nat \<Rightarrow> float \<times> nat" where
  "RandomFloat L from' to' k =
     (let (r, k) = RandomFloat01 L k
      in (fadd (fmul r (fsub to' from')) from', k))"

definition RandomFloat_int :: "libc \<Rightarrow> int \<Rightarrow> int \<Rightarrow> nat \<Rightarrow> float \<times> nat" where
  "RandomFloat_int L from' to' k =
     (let (r, k) = RandomFloat01 L k
      in (fadd (fmul r (fsub (float_of_int to') (float_of_int from'))) (float_of_int from'), k))"

text \<open>\<open>MoveComponent::Initialize\<close>.\<close>

definition Initialize ::
  "libc \<Rightarrow> float \<Rightarrow> float \<Rightarrow> MoveComponent \<times> nat \<Rightarrow> MoveComponent \<times> nat" where
  "Initialize L minSpeed maxSpeed mk =
     (let (move, k) = mk;
          (r, k) = RandomFloat01 L k;
          angle = fmul (fmul r (round32 (31415926 / 10000000))) (float_of_int 2);
          (speed, k) = RandomFloat L minSpeed maxSpeed k;
          move = move\<lparr>velx := fmul (cosf L angle) speed\<rparr>;
          move = move\<lparr>vely := fmul (sinf L angle) speed\<rparr>
      in (move, k))"

text \<open>The scene before \<open>game_initialize\<close>: the static \<open>s_Objects\<close>, with empty arrays.\<close>

definition s_Objects :: Entities where
  "s_Objects = \<lparr>m_Positions = [], m_Sprites = [], m_Moves = [], m_IdGenerator = 0\<rparr>"

text \<open>
  \<open>std::vector::resize\<close>: the first \<open>n\<close> elements are kept and the missing ones are
  value-initialised, which for the three component structs is all fields zero.
\<close>

definition resize :: "nat \<Rightarrow> 'a \<Rightarrow> 'a list \<Rightarrow> 'a list" where
  "resize n d xs = take n xs @ replicate (n - length xs) d"

definition reserve :: "nat \<Rightarrow> Entities \<Rightarrow> Entities" where
  "reserve n s =
     s\<lparr>m_Positions := resize n \<lparr>pos_x = Fin 0, pos_y = Fin 0\<rparr> (m_Positions s),
       m_Sprites := resize n \<lparr>colorR = 0, colorG = 0, colorB = 0, spriteIndex = 0\<rparr> (m_Sprites s),
       m_Moves := resize n \<lparr>velx = Fin 0, vely = Fin 0\<rparr> (m_Moves s)\<rparr>"

definition AddEntity :: "Entities \<Rightarrow> EntityID \<times> Entities" where
  "AddEntity s = (m_IdGenerator s, s\<lparr>m_IdGenerator := m_IdGenerator s + 1\<rparr>)"

text \<open>The body of the first loop of \<open>game_initialize\<close>: lines 262 to 275.\<close>

definition init_object ::
  "libc \<Rightarrow> (float \<Rightarrow> 8 word) \<Rightarrow> Entities \<times> nat \<Rightarrow> error + Entities \<times> nat" where
  "init_object L ub8 sk =
     (let (s, k) = sk;
          (go, s) = AddEntity s
      in if go < length (m_Positions s) \<and> go < length (m_Sprites s) \<and> go < length (m_Moves s)
         then
           let (x, k) = RandomFloat_int L (xMin s_WorldBounds) (xMax s_WorldBounds) k;
               (y, k) = RandomFloat_int L (yMin s_WorldBounds) (yMax s_WorldBounds) k;
               position = (m_Positions s ! go)\<lparr>pos_x := x, pos_y := y\<rparr>;
               (r, k) = RandomFloat L (Fin 0) (Fin 1) k;
               spr = (m_Sprites s ! go)\<lparr>colorR := 255, colorG := 255, colorB := 255,
                   spriteIndex := uint8_of_float ub8 (fmul (float_of_int 255) r)\<rparr>;
               (move, k) = Initialize L (round32 (5 / 10)) (round32 (7 / 10)) (m_Moves s ! go, k)
           in Inr (s\<lparr>m_Positions := (m_Positions s)[go := position],
                     m_Sprites := (m_Sprites s)[go := spr],
                     m_Moves := (m_Moves s)[go := move]\<rparr>, k)
         else Inl OutOfBounds)"

text \<open>The body of the second loop: lines 281 to 294.\<close>

definition init_avoid ::
  "libc \<Rightarrow> (float \<Rightarrow> 8 word) \<Rightarrow> Entities \<times> nat \<Rightarrow> error + Entities \<times> nat" where
  "init_avoid L ub8 sk =
     (let (s, k) = sk;
          (go, s) = AddEntity s
      in if go < length (m_Positions s) \<and> go < length (m_Sprites s) \<and> go < length (m_Moves s)
         then
           let (x, k) = RandomFloat_int L (xMin s_WorldBounds) (xMax s_WorldBounds) k;
               (y, k) = RandomFloat_int L (yMin s_WorldBounds) (yMax s_WorldBounds) k;
               position = (m_Positions s ! go)\<lparr>pos_x := fmul x (round32 (2 / 10)),
                                                pos_y := fmul y (round32 (2 / 10))\<rparr>;
               (r, k) = RandomFloat L (round32 (5 / 10)) (Fin 1) k;
               (g, k) = RandomFloat L (round32 (5 / 10)) (Fin 1) k;
               (b, k) = RandomFloat L (round32 (5 / 10)) (Fin 1) k;
               spr = (m_Sprites s ! go)\<lparr>
                   colorR := uint8_of_float ub8 (fmul (float_of_int 255) r),
                   colorG := uint8_of_float ub8 (fmul (float_of_int 255) g),
                   colorB := uint8_of_float ub8 (fmul (float_of_int 255) b),
                   spriteIndex := 255\<rparr>;
               (move, k) = Initialize L (round32 (1 / 10)) (round32 (2 / 10)) (m_Moves s ! go, k)
           in Inr (s\<lparr>m_Positions := (m_Positions s)[go := position],
                     m_Sprites := (m_Sprites s)[go := spr],
                     m_Moves := (m_Moves s)[go := move]\<rparr>, k)
         else Inl OutOfBounds)"

text \<open>\<open>game_initialize\<close> on the scene and the number of calls of \<open>rand()\<close> made so far.\<close>

definition game_initialize ::
  "constants \<Rightarrow> libc \<Rightarrow> (float \<Rightarrow> 8 word) \<Rightarrow> Entities \<times> nat \<Rightarrow> error + Entities \<times> nat" where
  "game_initialize c L ub8 sk =
     (let (s, k) = sk;
          s = reserve (kObjectCount c + kAvoidCount c) s
      in case for_loop [0 ..< kObjectCount c] (\<lambda>i. init_object L ub8) (s, k) of
           Inl e \<Rightarrow> Inl e
         | Inr sk \<Rightarrow> for_loop [0 ..< kAvoidCount c] (\<lambda>i. init_avoid L ub8) sk)"

section \<open>The game\<close>

record sprite_pos_data_t =
  posX :: float
  posY :: float

record sprite_sprite_data_t =
  colR :: "8 word"
  colG :: "8 word"
  colB :: "8 word"
  sprite :: "8 word"

text \<open>
  \<open>memcpy\<close> of a whole component array over the front of the caller's buffer; both
  record types have the same fields in the same order. A buffer shorter than the array
  is written past its end.
\<close>

definition copy_positions ::
  "PositionComponent list \<Rightarrow> sprite_pos_data_t list \<Rightarrow> error + sprite_pos_data_t list" where
  "copy_positions ps posData =
     (if length ps \<le> length posData
      then Inr (map (\<lambda>p. \<lparr>posX = pos_x p, posY = pos_y p\<rparr>) ps @ drop (length ps) posData)
      else Inl OutOfBounds)"

definition copy_sprites ::
  "SpriteComponent list \<Rightarrow> sprite_sprite_data_t list \<Rightarrow> error + sprite_sprite_data_t list" where
  "copy_sprites ss spriteData =
     (if length ss \<le> length spriteData
      then Inr (map (\<lambda>p. \<lparr>colR = colorR p, colG = colorG p, colB = colorB p,
                           sprite = spriteIndex p\<rparr>) ss @ drop (length ss) spriteData)
      else Inl OutOfBounds)"

text \<open>
  \<open>game_update\<close> on the scene and the static grid, which it returns together with the two
  buffers and the \<open>int\<close> it returns.
\<close>

definition game_update ::
  "constants \<Rightarrow> (float \<Rightarrow> 32 word) \<Rightarrow> grid \<times> Entities \<Rightarrow>
     sprite_pos_data_t list \<Rightarrow> sprite_sprite_data_t list \<Rightarrow> float \<Rightarrow>
     error + (grid \<times> Entities) \<times> sprite_pos_data_t list \<times> sprite_sprite_data_t list \<times> int" where
  "game_update c ub gs posData spriteData deltaTime =
     (case MoveSystem_UpdateSystem c (snd gs) deltaTime of
        Inl e \<Rightarrow> Inl e
      | Inr s1 \<Rightarrow>
          (case AvoidanceSystem_UpdateSystem c ub (fst gs, s1) deltaTime of
             Inl e \<Rightarrow> Inl e
           | Inr gs2 \<Rightarrow>
               (case copy_positions (m_Positions (snd gs2)) posData of
                  Inl e \<Rightarrow> Inl e
                | Inr posData' \<Rightarrow>
                    (case copy_sprites (m_Sprites (snd gs2)) spriteData of
                       Inl e \<Rightarrow> Inl e
                     | Inr spriteData' \<Rightarrow>
                         Inr (gs2, posData', spriteData',
                              sint (word_of_nat (length (m_Positions (snd gs2))) :: 32 word))))))"

section \<open>Notions used by the properties\<close>

text \<open>
  The cell that contains a position, each coordinate computed on its own from its own
  component, as the build does for the corners of a footprint and as lines 202 and 203 do
  for \<open>x\<close>.
\<close>

definition containing_cell :: "(float \<Rightarrow> 32 word) \<Rightarrow> PositionComponent \<Rightarrow> 32 word \<times> 32 word" where
  "containing_cell ub p =
     (wrap_cell (uint_of_float ub (fsub (pos_x p) (float_of_int (xMin s_WorldBounds)))
                   div kGridCellSize ! 0),
      wrap_cell (uint_of_float ub (fsub (pos_y p) (float_of_int (yMin s_WorldBounds)))
                   div kGridCellSize ! 1))"

text \<open>
  A scene as \<open>game_initialize\<close> leaves it: every component array holds one element for
  each of the \<open>kObjectCount + kAvoidCount\<close> entities.
\<close>

definition scene_ok :: "constants \<Rightarrow> Entities \<Rightarrow> bool" where
  "scene_ok c s \<longleftrightarrow>
     length (m_Positions s) = kObjectCount c + kAvoidCount c \<and>
     length (m_Sprites s) = kObjectCount c + kAvoidCount c \<and>
     length (m_Moves s) = kObjectCount c + kAvoidCount c"

fun is_finite :: "float \<Rightarrow> bool" where
  "is_finite (Fin r) = True"
| "is_finite f = False"

definition finite_position :: "PositionComponent \<Rightarrow> bool" where
  "finite_position p \<longleftrightarrow> is_finite (pos_x p) \<and> is_finite (pos_y p)"

definition finite_move :: "MoveComponent \<Rightarrow> bool" where
  "finite_move m \<longleftrightarrow> is_finite (velx m) \<and> is_finite (vely m)"

text \<open>A position within the world bounds.\<close>

definition in_bounds :: "PositionComponent \<Rightarrow> bool" where
  "in_bounds p \<longleftrightarrow>
     fle (float_of_int (xMin s_WorldBounds)) (pos_x p) \<and>
     fle (pos_x p) (float_of_int (xMax s_WorldBounds)) \<and>
     fle (float_of_int (yMin s_WorldBounds)) (pos_y p) \<and>
     fle (pos_y p) (float_of_int (yMax s_WorldBounds))"

text \<open>Successive calls of the move system, one for each \<open>deltaTime\<close> of a list.\<close>

definition MoveSystem_run :: "constants \<Rightarrow> Entities \<Rightarrow> float list \<Rightarrow> error + Entities" where
  "MoveSystem_run c s deltaTimes =
     for_loop deltaTimes (\<lambda>deltaTime s. MoveSystem_UpdateSystem c s deltaTime) s"

text \<open>
  Successive calls of \<open>game_update\<close> by the driver, one for each \<open>deltaTime\<close> of a list, on
  the same two buffers; the result holds the values the calls returned, in order.
\<close>

fun game_run ::
  "constants \<Rightarrow> (float \<Rightarrow> 32 word) \<Rightarrow> grid \<times> Entities \<Rightarrow>
     sprite_pos_data_t list \<Rightarrow> sprite_sprite_data_t list \<Rightarrow> float list \<Rightarrow>
     error + (grid \<times> Entities) \<times> sprite_pos_data_t list \<times> sprite_sprite_data_t list \<times> int list" where
  "game_run c ub gs posData spriteData [] = Inr (gs, posData, spriteData, [])"
| "game_run c ub gs posData spriteData (deltaTime # deltaTimes) =
     (case game_update c ub gs posData spriteData deltaTime of
        Inl e \<Rightarrow> Inl e
      | Inr (gs', posData', spriteData', n) \<Rightarrow>
          (case game_run c ub gs' posData' spriteData' deltaTimes of
             Inl e \<Rightarrow> Inl e
           | Inr (gs'', posData'', spriteData'', ns) \<Rightarrow>
               Inr (gs'', posData'', spriteData'', n # ns)))"

text \<open>What a step on the entity \<open>io\<close> may change: the components of \<open>io\<close>, except its sprite index.\<close>

definition frame_but :: "EntityID \<Rightarrow> Entities \<Rightarrow> Entities \<Rightarrow> bool" where
  "frame_but io s s' \<longleftrightarrow>
     length (m_Positions s') = length (m_Positions s) \<and>
     length (m_Sprites s') = length (m_Sprites s) \<and>
     length (m_Moves s') = length (m_Moves s) \<and>
     m_IdGenerator s' = m_IdGenerator s \<and>
     map spriteIndex (m_Sprites s') = map spriteIndex (m_Sprites s) \<and>
     (\<forall>j. j \<noteq> io \<longrightarrow> m_Positions s' ! j = m_Positions s ! j
           \<and> m_Sprites s' ! j = m_Sprites s ! j \<and> m_Moves s' ! j = m_Moves s ! j)"

text \<open>What no step changes: the sizes of the arrays, the id generator and the sprite indices.\<close>

definition same_shape :: "Entities \<Rightarrow> Entities \<Rightarrow> bool" where
  "same_shape s s' \<longleftrightarrow>
     length (m_Positions s') = length (m_Positions s) \<and>
     length (m_Sprites s') = length (m_Sprites s) \<and>
     length (m_Moves s') = length (m_Moves s) \<and>
     m_IdGenerator s' = m_IdGenerator s \<and>
     map spriteIndex (m_Sprites s') = map spriteIndex (m_Sprites s)"

text \<open>
  Two states of the grid agree when they have the same counters and the same entries in
  the slots below the counters; the other slots hold what earlier calls left there.
\<close>

definition grid_agree :: "grid \<times> counts \<Rightarrow> grid \<times> counts \<Rightarrow> bool" where
  "grid_agree gc gc' \<longleftrightarrow>
     snd gc = snd gc' \<and> (\<forall>h slot. slot < unat (snd gc h) \<longrightarrow> fst gc h slot = fst gc' h slot)"

text \<open>
  What a run shows to the outside: the error, or the scene, the two buffers and the values
  returned. The static grid is not part of it.
\<close>

definition observable ::
  "error + (grid \<times> Entities) \<times> sprite_pos_data_t list \<times> sprite_sprite_data_t list \<times> int list \<Rightarrow>
     error + Entities \<times> sprite_pos_data_t list \<times> sprite_sprite_data_t list \<times> int list" where
  "observable r = map_sum id (\<lambda>((avoidEntityGrid, s), posData, spriteData, ns).
                                  (s, posData, spriteData, ns)) r"

text \<open>
  Two positions farther apart than the avoidance distance 1.3: the Euclidean distance of
  the points they hold, in exact arithmetic.
\<close>

definition far_apart :: "PositionComponent \<Rightarrow> PositionComponent \<Rightarrow> bool" where
  "far_apart p q \<longleftrightarrow>
     (case (pos_x p, pos_y p, pos_x q, pos_y q) of
        (Fin a, Fin b, Fin c, Fin d) \<Rightarrow> (13 / 10) ^ 2 < (a - c) ^ 2 + (b - d) ^ 2
      | _ \<Rightarrow> False)"

text \<open>
  A velocity and a \<open>deltaTime\<close> whose exact product, the displacement of the frame, is at
  most \<open>b\<close> in magnitude on each axis.
\<close>

definition step_within :: "rat \<Rightarrow> MoveComponent \<Rightarrow> float \<Rightarrow> bool" where
  "step_within b move deltaTime \<longleftrightarrow>
     (case (velx move, vely move, deltaTime) of
        (Fin vx, Fin vy, Fin dt) \<Rightarrow> \<bar>vx * dt\<bar> \<le> b \<and> \<bar>vy * dt\<bar> \<le> b
      | _ \<Rightarrow> False)"

text \<open>A position with finite coordinates of magnitude at most \<open>b\<close>.\<close>

definition position_within :: "rat \<Rightarrow> PositionComponent \<Rightarrow> bool" where
  "position_within b p \<longleftrightarrow>
     (case (pos_x p, pos_y p) of
        (Fin x, Fin y) \<Rightarrow> \<bar>x\<bar> \<le> b \<and> \<bar>y\<bar> \<le> b
      | _ \<Rightarrow> False)"

section \<open>Rounding\<close>

lemma quantum_exp_le: "m < 2 ^ 24 * 2 ^ j \<Longrightarrow> quantum_exp m \<le> j"
proof (induction j arbitrary: m)
  case 0
  then show ?case by (simp add: quantum_exp.simps)
next
  case (Suc j)
  show ?case
  proof (cases "m < 2 ^ 24")
    case True
    then show ?thesis by (simp add: quantum_exp.simps)
  next
    case False
    from Suc.prems have "m < 2 * (2 ^ 24 * 2 ^ j)" by simp
    then have "m div 2 < 2 ^ 24 * 2 ^ j" by linarith
    then have "quantum_exp (m div 2) \<le> j" by (rule Suc.IH)
    with False show ?thesis by (subst quantum_exp.simps) simp
  qed
qed

lemma quantum_exp_upper: "m < 2 ^ 24 * 2 ^ quantum_exp m"
proof (induction m rule: quantum_exp.induct)
  case (1 m)
  show ?case
  proof (cases "m < 2 ^ 24")
    case True
    then show ?thesis by (simp add: quantum_exp.simps)
  next
    case False
    then have "m div 2 < 2 ^ 24 * 2 ^ quantum_exp (m div 2)" by (rule 1)
    then have "m < 2 * (2 ^ 24 * 2 ^ quantum_exp (m div 2))" by linarith
    moreover from False have "quantum_exp m = Suc (quantum_exp (m div 2))"
      by (subst quantum_exp.simps) simp
    ultimately show ?thesis by simp
  qed
qed

lemma quantum_exp_lower: "0 < quantum_exp m \<Longrightarrow> 2 ^ 23 * 2 ^ quantum_exp m \<le> m"
proof (induction m rule: quantum_exp.induct)
  case (1 m)
  from "1.prems" have big: "\<not> m < 2 ^ 24"
    by (subst (asm) quantum_exp.simps) (simp split: if_splits)
  then have e: "quantum_exp m = Suc (quantum_exp (m div 2))"
    by (subst quantum_exp.simps) simp
  show ?case
  proof (cases "0 < quantum_exp (m div 2)")
    case True
    with big have "2 ^ 23 * 2 ^ quantum_exp (m div 2) \<le> m div 2" by (rule 1)
    then have "2 * (2 ^ 23 * 2 ^ quantum_exp (m div 2)) \<le> m" by linarith
    then show ?thesis by (simp add: e)
  next
    case False
    with big show ?thesis by (simp add: e)
  qed
qed

lemma quantum_exp_mono: "m \<le> m' \<Longrightarrow> quantum_exp m \<le> quantum_exp m'"
  using quantum_exp_upper [of m'] by (intro quantum_exp_le) linarith

lemma rne_of_int [simp]: "rne (of_int k) = k"
  by (simp add: rne_def)

lemma rne_lower: "\<lfloor>q\<rfloor> \<le> rne q"
  by (simp add: rne_def Let_def)

lemma rne_upper: "rne q \<le> \<lfloor>q\<rfloor> + 1"
  by (simp add: rne_def Let_def)

lemma rne_mono: "q \<le> q' \<Longrightarrow> rne q \<le> rne q'"
proof -
  assume le: "q \<le> q'"
  then have fl: "\<lfloor>q\<rfloor> \<le> \<lfloor>q'\<rfloor>" by (rule floor_mono)
  show ?thesis
  proof (cases "\<lfloor>q\<rfloor> = \<lfloor>q'\<rfloor>")
    case True
    with le show ?thesis by (auto simp: rne_def Let_def)
  next
    case False
    with fl have "\<lfloor>q\<rfloor> + 1 \<le> \<lfloor>q'\<rfloor>" by simp
    with rne_upper [of q] rne_lower [of q'] show ?thesis by linarith
  qed
qed

lemma rne_le_int: "q \<le> of_int k \<Longrightarrow> rne q \<le> k"
  using rne_mono [of q "of_int k"] by simp

lemma rne_ge_int: "of_int k \<le> q \<Longrightarrow> k \<le> rne q"
  using rne_mono [of "of_int k" q] by simp

lemma round_units_mono: "s \<le> s' \<Longrightarrow> round_units s \<le> round_units s'"
proof -
  assume le: "s \<le> s'"
  define e where "e = quantum_exp \<lfloor>s\<rfloor>"
  define e' where "e' = quantum_exp \<lfloor>s'\<rfloor>"
  have ee: "e \<le> e'"
    unfolding e_def e'_def by (intro quantum_exp_mono floor_mono le)
  have ru: "round_units s = rne (s / 2 ^ e) * 2 ^ e"
    "round_units s' = rne (s' / 2 ^ e') * 2 ^ e'"
    by (simp_all add: round_units_def Let_def e_def e'_def)
  show ?thesis
  proof (cases "e = e'")
    case True
    from le have "s / 2 ^ e \<le> s' / 2 ^ e" by (simp add: divide_right_mono)
    then have "rne (s / 2 ^ e) \<le> rne (s' / 2 ^ e)" by (rule rne_mono)
    then show ?thesis by (simp add: ru True)
  next
    case False
    with ee have lt: "Suc e \<le> e'" and pos: "0 < e'" by simp_all
    have "\<lfloor>s\<rfloor> < 2 ^ 24 * 2 ^ e" unfolding e_def by (rule quantum_exp_upper)
    then have "s < of_int (2 ^ 24 * 2 ^ e)" by (simp only: floor_less_iff)
    then have "s / 2 ^ e \<le> of_int (2 ^ 24)" by (simp add: pos_divide_le_eq)
    then have "rne (s / 2 ^ e) \<le> 2 ^ 24" by (rule rne_le_int)
    then have "round_units s \<le> 2 ^ 24 * 2 ^ e" by (simp add: ru)
    also have "\<dots> = 2 ^ 23 * (2 ^ Suc e :: int)" by simp
    also from lt have "\<dots> \<le> 2 ^ 23 * 2 ^ e'"
      by (intro mult_left_mono power_increasing) simp_all
    finally have a: "round_units s \<le> 2 ^ 23 * 2 ^ e'" .
    from pos have "2 ^ 23 * 2 ^ e' \<le> \<lfloor>s'\<rfloor>" unfolding e'_def by (rule quantum_exp_lower)
    then have "of_int (2 ^ 23 * 2 ^ e') \<le> s'" by (simp only: le_floor_iff)
    then have "of_int (2 ^ 23) \<le> s' / 2 ^ e'" by (simp add: pos_le_divide_eq)
    then have "2 ^ 23 \<le> rne (s' / 2 ^ e')" by (rule rne_ge_int)
    then have "2 ^ 23 * 2 ^ e' \<le> round_units s'" by (simp add: ru)
    with a show ?thesis by linarith
  qed
qed

lemma round_units_exact:
  assumes "0 \<le> k" "k < 2 ^ 24"
  shows "round_units (of_int (k * 2 ^ j)) = k * 2 ^ j"
proof -
  define e where "e = quantum_exp (k * 2 ^ j)"
  from assms have "k * 2 ^ j < 2 ^ 24 * 2 ^ j" by simp
  then have ej: "e \<le> j" unfolding e_def by (rule quantum_exp_le)
  then have "(2::rat) ^ j = 2 ^ (j - e) * 2 ^ e"
    by (simp flip: power_add)
  then have "(of_int (k * 2 ^ j) :: rat) / 2 ^ e = of_int (k * 2 ^ (j - e))" by simp
  then have r: "rne (of_int (k * 2 ^ j) / 2 ^ e) = k * 2 ^ (j - e)"
    by (simp only: rne_of_int)
  from ej have p: "(2::int) ^ (j - e) * 2 ^ e = 2 ^ j" by (simp flip: power_add)
  have "round_units (of_int (k * 2 ^ j)) = rne (of_int (k * 2 ^ j) / 2 ^ e) * 2 ^ e"
    unfolding round_units_def Let_def floor_of_int e_def ..
  also have "\<dots> = k * (2 ^ (j - e) * 2 ^ e)" by (simp only: r mult.assoc)
  finally show ?thesis by (simp only: p)
qed

lemma round_units_0 [simp]: "round_units 0 = 0"
  using round_units_exact [of 0 0] by simp

lemma round_units_nonneg: "0 \<le> s \<Longrightarrow> 0 \<le> round_units s"
  using round_units_mono [of 0 s] by simp

lemma round32_exact:
  assumes "0 \<le> k" "k < 2 ^ 24" "j \<le> 253" "\<bar>r\<bar> * 2 ^ 149 = of_int (k * 2 ^ j)"
  shows "round32 r = Fin r"
proof -
  have n: "round_units (\<bar>r\<bar> * 2 ^ 149) = k * 2 ^ j"
    using assms(1,2) by (simp only: assms(4) round_units_exact)
  from assms have "k * 2 ^ j < 2 ^ 24 * (2 ^ j :: int)" by simp
  also from assms(3) have "\<dots> \<le> 2 ^ 24 * 2 ^ 253"
    by (intro mult_left_mono power_increasing) simp_all
  finally have small: "\<not> 2 ^ 277 \<le> k * 2 ^ j" by simp
  have "sgn r * of_int (k * 2 ^ j) / 2 ^ 149 = sgn r * \<bar>r\<bar>"
    unfolding assms(4) [symmetric] by simp
  also have "\<dots> = r" by (simp add: sgn_mult_abs)
  finally have v: "sgn r * of_int (k * 2 ^ j) / 2 ^ 149 = r" .
  have "round32 r = Fin (sgn r * of_int (k * 2 ^ j) / 2 ^ 149)"
    unfolding round32_def Let_def n using small by (simp only: if_False)
  then show ?thesis by (simp only: v)
qed

lemma round32_of_int: "\<bar>i\<bar> < 2 ^ 24 \<Longrightarrow> round32 (of_int i) = Fin (of_int i)"
  by (rule round32_exact [where k = "\<bar>i\<bar>" and j = 149]) simp_all

lemma float_of_int_exact: "\<bar>i\<bar> < 2 ^ 24 \<Longrightarrow> float_of_int i = Fin (of_int i)"
  by (simp add: float_of_int_def round32_of_int)

lemma fle_refl_Fin [simp]: "fle (Fin a) (Fin a)" by simp

lemma round32_mono: "a \<le> b \<Longrightarrow> fle (round32 a) (round32 b)"
proof -
  assume le: "a \<le> b"
  define na where "na = round_units (\<bar>a\<bar> * 2 ^ 149)"
  define nb where "nb = round_units (\<bar>b\<bar> * 2 ^ 149)"
  have nn: "0 \<le> na" "0 \<le> nb" unfolding na_def nb_def by (simp_all add: round_units_nonneg)
  have ra: "round32 a = (if 2 ^ 277 \<le> na then (if a < 0 then NInf else PInf)
                         else Fin (sgn a * of_int na / 2 ^ 149))"
    and rb: "round32 b = (if 2 ^ 277 \<le> nb then (if b < 0 then NInf else PInf)
                         else Fin (sgn b * of_int nb / 2 ^ 149))"
    by (simp_all add: round32_def na_def nb_def)
  consider "0 \<le> a" | "a < 0" "0 \<le> b" | "b < 0" by linarith
  then show ?thesis
  proof cases
    case 1
    with le have "\<bar>a\<bar> * 2 ^ 149 \<le> \<bar>b\<bar> * 2 ^ 149" by simp
    then have "na \<le> nb" unfolding na_def nb_def by (rule round_units_mono)
    moreover from 1 le have "sgn a * of_int na \<le> sgn b * (of_int nb :: rat)"
      using nn \<open>na \<le> nb\<close> by (cases "a = 0"; cases "b = 0") (simp_all add: sgn_if)
    ultimately show ?thesis using 1 le by (simp add: ra rb divide_right_mono)
  next
    case 2
    with nn have "sgn a * (of_int na :: rat) \<le> 0" "0 \<le> sgn b * (of_int nb :: rat)"
      by (simp_all add: sgn_if)
    then have "sgn a * (of_int na :: rat) / 2 ^ 149 \<le> sgn b * of_int nb / 2 ^ 149"
      by (intro divide_right_mono) simp_all
    with 2 show ?thesis by (simp add: ra rb)
  next
    case 3
    with le have "\<bar>b\<bar> * 2 ^ 149 \<le> \<bar>a\<bar> * 2 ^ 149" by simp
    then have "nb \<le> na" unfolding na_def nb_def by (rule round_units_mono)
    with 3 le show ?thesis by (simp add: ra rb sgn_if divide_right_mono)
  qed
qed

lemma round32_numeral [simp]: "(numeral n :: int) < 2 ^ 24 \<Longrightarrow> round32 (numeral n) = Fin (numeral n)"
  using round32_of_int [of "numeral n"] by simp

lemma round32_neg_numeral [simp]:
  "(numeral n :: int) < 2 ^ 24 \<Longrightarrow> round32 (- numeral n) = Fin (- numeral n)"
  using round32_of_int [of "- numeral n"] by simp

lemma round32_0 [simp]: "round32 0 = Fin 0"
  using round32_of_int [of 0] by simp

lemma round32_1 [simp]: "round32 1 = Fin 1"
  using round32_of_int [of 1] by simp

lemma float_of_int_bounds [simp]:
  "float_of_int (xMin s_WorldBounds) = Fin (- 128)"
  "float_of_int (xMax s_WorldBounds) = Fin 128"
  "float_of_int (yMin s_WorldBounds) = Fin (- 64)"
  "float_of_int (yMax s_WorldBounds) = Fin 64"
  by (simp_all add: float_of_int_def s_WorldBounds_def)

lemma kGridCellSize_simps [simp]: "kGridCellSize ! 0 = 4" "kGridCellSize ! 1 = 2" "kGridCellSize ! Suc 0 = 2"
  by (simp_all add: kGridCellSize_def s_WorldBounds_def kCellCount_def)

text \<open>Evaluating a rounding at a given rational.\<close>

lemma floor_numeral_divide [simp]:
  "\<lfloor>numeral a / numeral b :: rat\<rfloor> = numeral a div numeral b"
  using floor_divide_of_int_eq [of "numeral a" "numeral b", where ?'a = rat] by simp

lemma quantum_exp_numeral:
  "quantum_exp (numeral k) =
     (if (numeral k :: int) < 2 ^ 24 then 0 else Suc (quantum_exp (numeral k div 2)))"
  by (rule quantum_exp.simps)

lemmas round32_eval = round32_def round_units_def Let_def rne_def quantum_exp_numeral

lemma round32_neg_one [simp]: "round32 (- 1) = Fin (- 1)"
  using round32_of_int [of "- 1"] by simp

section \<open>Loops\<close>

lemma for_loop_preserve:
  assumes "for_loop xs body s = Inr s'" "P s"
    and "\<And>i s s'. i \<in> set xs \<Longrightarrow> P s \<Longrightarrow> body i s = Inr s' \<Longrightarrow> P s'"
  shows "P s'"
  using assms
proof (induction xs arbitrary: s)
  case Nil
  then show ?case by simp
next
  case (Cons i xs)
  from Cons.prems(1) obtain s1 where b: "body i s = Inr s1" and r: "for_loop xs body s1 = Inr s'"
    by (auto split: sum.splits)
  have p1: "P s1" using Cons.prems(3) [of i s s1] Cons.prems(2) b by simp
  have "\<And>j t t'. j \<in> set xs \<Longrightarrow> P t \<Longrightarrow> body j t = Inr t' \<Longrightarrow> P t'"
    using Cons.prems(3) by (meson list.set_intros(2))
  with r p1 show ?case by (rule Cons.IH)
qed

lemma for_loop_upt_total:
  assumes "k \<le> n" "I k s"
    and "\<And>i s. k \<le> i \<Longrightarrow> i < n \<Longrightarrow> I i s \<Longrightarrow> \<exists>s'. body i s = Inr s' \<and> I (Suc i) s'"
  shows "\<exists>s'. for_loop [k ..< n] body s = Inr s' \<and> I n s'"
  using assms
proof (induction "n - k" arbitrary: k s)
  case 0
  then show ?case by simp
next
  case (Suc d)
  then have kn: "k < n" by simp
  with Suc.prems obtain s1 where b: "body k s = Inr s1" and i: "I (Suc k) s1" by blast
  have "\<exists>s'. for_loop [Suc k ..< n] body s1 = Inr s' \<and> I n s'"
  proof (rule Suc.hyps(1))
    show "d = n - Suc k" using Suc.hyps(2) by simp
    show "Suc k \<le> n" using kn by simp
    show "I (Suc k) s1" by (rule i)
    show "\<exists>s'. body j t = Inr s' \<and> I (Suc j) s'" if "Suc k \<le> j" "j < n" "I j t" for j t
      using that Suc.prems(3) [of j t] by simp
  qed
  with kn b show ?case by (simp add: upt_conv_Cons)
qed

lemma for_loop_append:
  "for_loop (xs @ ys) body s =
     (case for_loop xs body s of Inl e \<Rightarrow> Inl e | Inr s' \<Rightarrow> for_loop ys body s')"
  by (induction xs arbitrary: s) (simp_all split: sum.splits)

lemma for_loop_map: "for_loop (map f xs) body s = for_loop xs (\<lambda>x. body (f x)) s"
  by (induction xs arbitrary: s) (simp_all split: sum.splits)

lemma for_loop_nested:
  "for_loop ys (\<lambda>y. for_loop xs (body y)) s
     = for_loop (List.product ys xs) (\<lambda>(y, x). body y x) s"
proof (induction ys arbitrary: s)
  case Nil
  show ?case by simp
next
  case (Cons y ys)
  show ?case
    by (simp add: for_loop_append for_loop_map Cons.IH split: sum.splits)
qed

lemma for_loop_rel:
  assumes "R s t"
    and "\<And>i s t. i \<in> set xs \<Longrightarrow> R s t \<Longrightarrow> rel_sum (=) R (body i s) (body' i t)"
  shows "rel_sum (=) R (for_loop xs body s) (for_loop xs body' t)"
  using assms
proof (induction xs arbitrary: s t)
  case Nil
  then show ?case by simp
next
  case (Cons i xs)
  from Cons.prems have h: "rel_sum (=) R (body i s) (body' i t)" by simp
  show ?case
  proof (cases "body i s")
    case (Inl e)
    with h show ?thesis by (cases "body' i t") simp_all
  next
    case (Inr s1)
    with h obtain t1 where t1: "body' i t = Inr t1" "R s1 t1" by (cases "body' i t") simp_all
    have "rel_sum (=) R (for_loop xs body s1) (for_loop xs body' t1)"
      using t1(2) Cons.prems(2) by (intro Cons.IH) simp_all
    with Inr t1(1) show ?thesis by simp
  qed
qed

lemma for_loop_cong:
  assumes "\<And>i s. i \<in> set xs \<Longrightarrow> body i s = body' i s"
  shows "for_loop xs body s = for_loop xs body' s"
  using assms by (induction xs arbitrary: s) (simp_all split: sum.splits)

section \<open>The move system: what one call does\<close>

lemma MoveSystem_step_Inr:
  assumes "io < length (m_Positions s)" "io < length (m_Moves s)"
  shows "MoveSystem_step dt io s =
     Inr (s\<lparr>m_Positions := (m_Positions s)[io := fst (MoveSystem_body dt (m_Positions s ! io, m_Moves s ! io))],
            m_Moves := (m_Moves s)[io := snd (MoveSystem_body dt (m_Positions s ! io, m_Moves s ! io))]\<rparr>)"
  using assms by (simp add: MoveSystem_step_def split: prod.splits)

lemma MoveSystem_result:
  assumes ok: "scene_ok c s"
  shows "\<exists>s'. MoveSystem_UpdateSystem c s dt = Inr s' \<and> scene_ok c s'
           \<and> m_Sprites s' = m_Sprites s \<and> m_IdGenerator s' = m_IdGenerator s
           \<and> (\<forall>j < kObjectCount c + kAvoidCount c.
                 (m_Positions s' ! j, m_Moves s' ! j)
                   = MoveSystem_body dt (m_Positions s ! j, m_Moves s ! j))"
proof -
  define n where "n = kObjectCount c + kAvoidCount c"
  define I where "I i t \<longleftrightarrow> length (m_Positions t) = n \<and> length (m_Moves t) = n
      \<and> m_Sprites t = m_Sprites s \<and> m_IdGenerator t = m_IdGenerator s
      \<and> (\<forall>j < n. (m_Positions t ! j, m_Moves t ! j)
             = (if j < i then MoveSystem_body dt (m_Positions s ! j, m_Moves s ! j)
                else (m_Positions s ! j, m_Moves s ! j)))" for i and t :: Entities
  have "\<exists>s'. for_loop [0 ..< n] (MoveSystem_step dt) s = Inr s' \<and> I n s'"
  proof (rule for_loop_upt_total)
    show "0 \<le> n" by simp
    show "I 0 s" using ok by (simp add: I_def scene_ok_def n_def)
    show "\<exists>s'. MoveSystem_step dt i t = Inr s' \<and> I (Suc i) s'" if "i < n" "I i t" for i t
    proof -
      from that have l: "i < length (m_Positions t)" "i < length (m_Moves t)"
        by (simp_all add: I_def)
      from that have cur: "(m_Positions t ! i, m_Moves t ! i) = (m_Positions s ! i, m_Moves s ! i)"
        by (simp add: I_def)
      show ?thesis
        using that cur unfolding MoveSystem_step_Inr [OF l]
        by (auto simp add: I_def nth_list_update less_Suc_eq)
    qed
  qed
  then show ?thesis
    using ok by (auto simp add: MoveSystem_UpdateSystem_def I_def scene_ok_def n_def)
qed

lemma MoveSystem_body_eq:
  "MoveSystem_body dt (p, m) =
     (let x1 = fadd (pos_x p) (fmul (velx m) dt);
          y1 = fadd (pos_y p) (fmul (vely m) dt)
      in (\<lparr>pos_x = (if flt x1 (Fin (- 128)) then Fin (- 128)
                      else if flt (Fin 128) x1 then Fin 128 else x1),
           pos_y = (if flt y1 (Fin (- 64)) then Fin (- 64)
                      else if flt (Fin 64) y1 then Fin 64 else y1)\<rparr>,
          \<lparr>velx = (if flt x1 (Fin (- 128)) \<or> flt (Fin 128) x1 then fneg (velx m) else velx m),
           vely = (if flt y1 (Fin (- 64)) \<or> flt (Fin 64) y1 then fneg (vely m) else vely m)\<rparr>))"
  by (cases p; cases m) (simp add: MoveSystem_body_def Let_def fgt_def)

lemma round32_not_NaN [simp]: "round32 r \<noteq> NaN"
  by (simp add: round32_def Let_def)

lemma fmul_finite_not_NaN: "is_finite a \<Longrightarrow> is_finite b \<Longrightarrow> fmul a b \<noteq> NaN"
  by (cases a; cases b) simp_all

lemma fadd_finite_not_NaN: "is_finite a \<Longrightarrow> b \<noteq> NaN \<Longrightarrow> fadd a b \<noteq> NaN"
  by (cases a; cases b) simp_all

lemma clamp_bounds:
  assumes "x \<noteq> NaN" "lo \<le> hi"
  defines "r \<equiv> (if flt x (Fin lo) then Fin lo else if flt (Fin hi) x then Fin hi else x)"
  shows "fle (Fin lo) r" "fle r (Fin hi)" "is_finite r"
  using assms by (cases x; simp; fail)+

lemma MoveSystem_body_finite:
  assumes "finite_position p" "finite_move m" "is_finite dt"
  shows "in_bounds (fst (MoveSystem_body dt (p, m)))"
    and "finite_position (fst (MoveSystem_body dt (p, m)))"
    and "finite_move (snd (MoveSystem_body dt (p, m)))"
proof -
  define x1 where "x1 = fadd (pos_x p) (fmul (velx m) dt)"
  define y1 where "y1 = fadd (pos_y p) (fmul (vely m) dt)"
  from assms have x1: "x1 \<noteq> NaN" and y1: "y1 \<noteq> NaN"
    unfolding x1_def y1_def
    by (simp_all add: finite_position_def finite_move_def fadd_finite_not_NaN fmul_finite_not_NaN)
  note cx = clamp_bounds [OF x1, of "- 128" 128] and cy = clamp_bounds [OF y1, of "- 64" 64]
  show "in_bounds (fst (MoveSystem_body dt (p, m)))"
    using cx cy by (simp add: MoveSystem_body_eq in_bounds_def Let_def flip: x1_def y1_def)
  show "finite_position (fst (MoveSystem_body dt (p, m)))"
    using cx cy by (simp add: MoveSystem_body_eq finite_position_def Let_def flip: x1_def y1_def)
  from assms(2) have "is_finite (fneg (velx m))" "is_finite (fneg (vely m))"
    by (cases "velx m"; cases "vely m"; simp add: finite_move_def)+
  with assms(2) show "finite_move (snd (MoveSystem_body dt (p, m)))"
    by (simp add: MoveSystem_body_eq finite_move_def Let_def)
qed

lemma MoveSystem_finite_step:
  assumes "scene_ok c s" "list_all finite_position (m_Positions s)"
    "list_all finite_move (m_Moves s)" "is_finite dt"
  shows "\<exists>s'. MoveSystem_UpdateSystem c s dt = Inr s' \<and> scene_ok c s'
           \<and> list_all finite_position (m_Positions s') \<and> list_all finite_move (m_Moves s')
           \<and> list_all in_bounds (m_Positions s')"
proof -
  from MoveSystem_result [OF assms(1), of dt] obtain s' where
    r: "MoveSystem_UpdateSystem c s dt = Inr s'" and ok: "scene_ok c s'"
    and b: "\<And>j. j < kObjectCount c + kAvoidCount c \<Longrightarrow>
             (m_Positions s' ! j, m_Moves s' ! j) = MoveSystem_body dt (m_Positions s ! j, m_Moves s ! j)"
    by blast
  have fin: "finite_position (m_Positions s ! j)" "finite_move (m_Moves s ! j)"
    if "j < kObjectCount c + kAvoidCount c" for j
    using that assms(1-3) by (simp_all add: scene_ok_def list_all_length)
  have p: "m_Positions s' ! j = fst (MoveSystem_body dt (m_Positions s ! j, m_Moves s ! j))"
    and m: "m_Moves s' ! j = snd (MoveSystem_body dt (m_Positions s ! j, m_Moves s ! j))"
    if "j < kObjectCount c + kAvoidCount c" for j
    using b [OF that] by (metis fst_conv, metis snd_conv)
  from ok have "list_all finite_position (m_Positions s')" "list_all finite_move (m_Moves s')"
    "list_all in_bounds (m_Positions s')"
    using fin assms(4) by (simp_all add: scene_ok_def list_all_length p m MoveSystem_body_finite)
  with r ok show ?thesis by blast
qed

lemma fle_antisym_Fin: "fle (Fin a) x \<Longrightarrow> \<not> flt (Fin a) x \<Longrightarrow> x = Fin a"
  by (cases x) simp_all

lemma fmul_pos:
  assumes "flt (Fin 0) a" "flt (Fin 0) b"
  shows "fle (Fin 0) (fmul a b)"
proof (cases a)
  case (Fin x)
  note a = this
  show ?thesis
  proof (cases b)
    case (Fin y)
    from assms a Fin have "0 \<le> x * y" by simp
    then have "fle (round32 0) (round32 (x * y))" by (rule round32_mono)
    with a Fin show ?thesis by simp
  qed (use assms a in simp_all)
next
  case PInf
  with assms show ?thesis by (cases b) simp_all
qed (use assms in simp_all)

lemma fadd_Fin_nonneg:
  assumes "is_float32 a" "fle (Fin 0) d"
  shows "fle (Fin a) (fadd (Fin a) d)"
proof (cases d)
  case (Fin y)
  with assms have "a \<le> a + y" by simp
  then have "fle (round32 a) (round32 (a + y))" by (rule round32_mono)
  with assms(1) Fin show ?thesis by (simp add: is_float32_def)
qed (use assms in simp_all)

lemma is_float32_128 [simp]: "is_float32 128" "is_float32 (- 128)" "is_float32 64" "is_float32 (- 64)"
  by (simp_all add: is_float32_def)

lemma round32_absorbed: "round32 (128 + 1 / 2 ^ 21) = Fin 128"
  by (simp add: round32_eval)

lemma is_float32_dt: "is_float32 (1 / 2 ^ 20)" "is_float32 (1 / 2)" "is_float32 (1 / 2 ^ 21)"
  unfolding is_float32_def
  by (rule round32_exact [where k = 1 and j = 129], simp_all)
     (rule round32_exact [where k = 1 and j = 148], simp_all,
      rule round32_exact [where k = 1 and j = 128], simp_all)

lemma absorbed_product: "fmul (Fin (1 / 2)) (Fin (1 / 2 ^ 20)) = Fin (1 / 2 ^ 21)"
  using is_float32_dt(3) by (simp add: is_float32_def)

lemma absorbed_sum: "fadd (Fin 128) (Fin (1 / 2 ^ 21)) = Fin 128"
  using round32_absorbed by simp

section \<open>Cell coordinates of positions within the world bounds\<close>

lemma kAvoidDistance_eq: "kAvoidDistance = Fin (5452595 / 4194304)"
  by (simp add: kAvoidDistance_def round32_eval)

lemma fle_Fin_between:
  assumes "fle (Fin a) z" "fle z (Fin b)"
  obtains v where "z = Fin v" "a \<le> v" "v \<le> b"
  using assms by (cases z) simp_all

lemma round32_between:
  assumes "is_float32 a" "is_float32 b" "a \<le> r" "r \<le> b"
  obtains v where "round32 r = Fin v" "a \<le> v" "v \<le> b"
proof -
  from assms(3) have "fle (round32 a) (round32 r)" by (rule round32_mono)
  moreover from assms(4) have "fle (round32 r) (round32 b)" by (rule round32_mono)
  ultimately show ?thesis
    using assms(1,2) that by (auto simp: is_float32_def elim: fle_Fin_between)
qed

lemma is_float32_of_int: "\<bar>i\<bar> < 2 ^ 24 \<Longrightarrow> is_float32 (of_int i)"
  by (simp add: is_float32_def round32_of_int)

lemma is_float32_half: "\<bar>i\<bar> < 2 ^ 24 \<Longrightarrow> is_float32 (of_int i / 2)"
  unfolding is_float32_def
  by (rule round32_exact [where k = "\<bar>i\<bar>" and j = 148]) (simp_all add: abs_divide)

lemma is_float32_numeral [simp]:
  "(numeral n :: int) < 2 ^ 24 \<Longrightarrow> is_float32 (numeral n)"
  "(numeral n :: int) < 2 ^ 24 \<Longrightarrow> is_float32 (- numeral n)"
  "is_float32 0" "is_float32 1"
  "(numeral n :: int) < 2 ^ 24 \<Longrightarrow> is_float32 (numeral n / 2)"
  using is_float32_of_int [of "numeral n"] is_float32_of_int [of "- numeral n"]
    is_float32_of_int [of 0] is_float32_of_int [of 1] is_float32_half [of "numeral n"]
  by simp_all

text \<open>The four expressions converted to cell coordinates.\<close>

lemma top_coord_range:
  assumes "fle (Fin (- of_int w)) x" "fle x (Fin (of_int w))" "w = 128 \<or> w = 64"
  obtains v where "fsub (fadd x kAvoidDistance) (Fin (- of_int w)) = Fin v"
    "1 \<le> v" "v \<le> 2 * of_int w + 3 / 2"
proof -
  from assms(1,2) obtain r where x: "x = Fin r" and r: "- of_int w \<le> r" "r \<le> of_int w"
    by (rule fle_Fin_between)
  let ?k = "5452595 / 4194304 :: rat"
  have "is_float32 (1 - of_int w)" "is_float32 (of_int w + 3 / 2)"
    using assms(3) by auto
  moreover have "1 - of_int w \<le> r + ?k" "r + ?k \<le> of_int w + 3 / 2"
    using r by simp_all
  ultimately obtain r1 where r1: "round32 (r + ?k) = Fin r1" "1 - of_int w \<le> r1" "r1 \<le> of_int w + 3 / 2"
    by (rule round32_between)
  have "is_float32 1" "is_float32 (2 * of_int w + 3 / 2)"
    using assms(3) by auto
  moreover have "1 \<le> r1 + of_int w" "r1 + of_int w \<le> 2 * of_int w + 3 / 2"
    using r1 by simp_all
  ultimately obtain v where "round32 (r1 + of_int w) = Fin v" "1 \<le> v" "v \<le> 2 * of_int w + 3 / 2"
    by (rule round32_between)
  with x r1(1) that show ?thesis
    by (simp add: fsub_def kAvoidDistance_eq)
qed

lemma query_coord_range:
  assumes "fle (Fin (- of_int w)) x" "fle x (Fin (of_int w))" "w = 128 \<or> w = 64"
  obtains v where "fsub x (Fin (- of_int w)) = Fin v" "0 \<le> v" "v \<le> 2 * of_int w"
proof -
  from assms(1,2) obtain r where x: "x = Fin r" and r: "- of_int w \<le> r" "r \<le> of_int w"
    by (rule fle_Fin_between)
  have "is_float32 0" "is_float32 (2 * of_int w)"
    using assms(3) by auto
  moreover have "0 \<le> r + of_int w" "r + of_int w \<le> 2 * of_int w"
    using r by simp_all
  ultimately obtain v where "round32 (r + of_int w) = Fin v" "0 \<le> v" "v \<le> 2 * of_int w"
    by (rule round32_between)
  with x that show ?thesis by (simp add: fsub_def)
qed

lemma small_word_bit:
  fixes t :: "32 word"
  assumes "unat t < 2 ^ k" "k \<le> n"
  shows "\<not> bit t n"
proof -
  from assms have "unat t < 2 ^ n"
    by (meson less_le_trans one_le_numeral power_increasing)
  then have "unat t div 2 ^ n = 0" by simp
  then have "\<not> bit (unat t) n" by (simp add: bit_iff_odd)
  then show ?thesis by (simp add: bit_unsigned_iff)
qed

lemma small_and_64: "unat (t :: 32 word) < 64 \<Longrightarrow> t AND 64 = 0"
  using small_word_bit [of t 6 6] and_exp_eq_0_iff_not_bit [of t 6] by simp

lemma wrap_cell_small: "unat t < 64 \<Longrightarrow> wrap_cell t = t"
  by (simp add: wrap_cell_def kCellCount_def small_and_64)

lemma wrap_cell_64: "wrap_cell 64 = 63"
  by (simp add: wrap_cell_def kCellCount_def kShiftAmount_def)

lemma wrap_cell_le: "unat t \<le> 64 \<Longrightarrow> unat (wrap_cell t) \<le> 63"
proof (cases "unat t = 64")
  case True
  then have "unat t = unat (64 :: 32 word)" by simp
  then have "t = 64" by (simp only: word_unat_eq_iff)
  then show ?thesis by (simp add: wrap_cell_64)
next
  case False
  assume "unat t \<le> 64"
  with False have "unat t < 64" by simp
  then show ?thesis by (simp add: wrap_cell_small)
qed

lemma cell_hash_unat:
  assumes "unat x \<le> 63" "unat y \<le> 63"
  shows "unat (cell_hash x y) = 64 * unat x + unat y"
proof -
  have "\<not> bit (push_bit 6 x) n \<or> \<not> bit y n" for n
  proof (cases "6 \<le> n")
    case True
    with assms(2) have "\<not> bit y n" by (intro small_word_bit [of y 6 n]) simp_all
    then show ?thesis ..
  next
    case False
    then show ?thesis by (simp add: bit_push_bit_iff)
  qed
  then have "push_bit 6 x OR y = push_bit 6 x + y" by (rule disjunctive_add [symmetric])
  also have "\<dots> = x * 64 + y" by (simp add: push_bit_eq_mult)
  finally have "unat (cell_hash x y) = (unat x * 64 + unat y) mod 2 ^ 32"
    by (simp add: cell_hash_def kShiftAmount_def unat_word_ariths mod_simps)
  with assms show ?thesis by simp
qed

lemma nat_less_int: "0 \<le> i \<Longrightarrow> i < int n \<Longrightarrow> nat i < n"
  by simp

lemma uint_of_float_unat:
  assumes "0 \<le> v" "v < 2 ^ 32"
  shows "unat (uint_of_float ub (Fin v)) = nat \<lfloor>v\<rfloor>"
proof -
  from assms have fl: "0 \<le> \<lfloor>v\<rfloor>" "\<lfloor>v\<rfloor> < 2 ^ 32" by (simp_all add: floor_less_iff)
  then have "nat \<lfloor>v\<rfloor> < 2 ^ 32" by (intro nat_less_int) simp_all
  then have "unat (word_of_nat (nat \<lfloor>v\<rfloor>) :: 32 word) = nat \<lfloor>v\<rfloor>"
    by (simp add: unat_of_nat)
  moreover from fl have "(word_of_nat (nat \<lfloor>v\<rfloor>) :: 32 word) = word_of_int \<lfloor>v\<rfloor>"
    by (intro word_of_int_nat [symmetric])
  ultimately show ?thesis using assms by (simp add: float_truncate_def)
qed

lemma cell_coord_le:
  assumes "0 \<le> v" "v < of_nat (65 * d)" "0 < d" "d \<le> 4"
  shows "unat (wrap_cell (uint_of_float ub (Fin v) div word_of_nat d)) \<le> 63"
proof -
  from assms have v32: "v < 2 ^ 32" by simp
  from assms have "\<lfloor>v\<rfloor> < int (65 * d)" by (simp add: floor_less_iff)
  with assms(1) have "nat \<lfloor>v\<rfloor> < 65 * d" by (intro nat_less_int) simp_all
  then have "nat \<lfloor>v\<rfloor> div d < 65" using assms(3)
    by (simp add: less_mult_imp_div_less mult.commute)
  moreover from assms(4) have "unat (word_of_nat d :: 32 word) = d"
    by (simp add: unat_of_nat)
  ultimately have "unat (uint_of_float ub (Fin v) div word_of_nat d) \<le> 64"
    using uint_of_float_unat [OF assms(1) v32, of ub] by (simp add: unat_div)
  then show ?thesis by (rule wrap_cell_le)
qed

lemma in_bounds_iff:
  "in_bounds p \<longleftrightarrow> fle (Fin (- 128)) (pos_x p) \<and> fle (pos_x p) (Fin 128)
     \<and> fle (Fin (- 64)) (pos_y p) \<and> fle (pos_y p) (Fin 64)"
  by (simp add: in_bounds_def)

lemma top_cells_le:
  assumes "in_bounds p"
  shows "unat (wrap_cell (uint_of_float ub
            (fsub (fadd (pos_x p) kAvoidDistance) (float_of_int (xMin s_WorldBounds)))
          div kGridCellSize ! 0)) \<le> 63"
    and "unat (wrap_cell (uint_of_float ub
            (fsub (fadd (pos_y p) kAvoidDistance) (float_of_int (yMin s_WorldBounds)))
          div kGridCellSize ! 1)) \<le> 63"
proof -
  from assms have x: "fle (Fin (- of_int 128)) (pos_x p)" "fle (pos_x p) (Fin (of_int 128))"
    and y: "fle (Fin (- of_int 64)) (pos_y p)" "fle (pos_y p) (Fin (of_int 64))"
    by (simp_all add: in_bounds_iff)
  from x obtain v where v: "fsub (fadd (pos_x p) kAvoidDistance) (Fin (- of_int 128)) = Fin v"
    "1 \<le> v" "v \<le> 2 * of_int 128 + 3 / 2"
    by (rule top_coord_range) simp
  from v(2,3) cell_coord_le [of v 4 ub]
  show "unat (wrap_cell (uint_of_float ub
            (fsub (fadd (pos_x p) kAvoidDistance) (float_of_int (xMin s_WorldBounds)))
          div kGridCellSize ! 0)) \<le> 63"
    using v(1) by simp
  from y obtain u where u: "fsub (fadd (pos_y p) kAvoidDistance) (Fin (- of_int 64)) = Fin u"
    "1 \<le> u" "u \<le> 2 * of_int 64 + 3 / 2"
    by (rule top_coord_range) simp
  from u(2,3) cell_coord_le [of u 2 ub]
  show "unat (wrap_cell (uint_of_float ub
            (fsub (fadd (pos_y p) kAvoidDistance) (float_of_int (yMin s_WorldBounds)))
          div kGridCellSize ! 1)) \<le> 63"
    using u(1) by simp
qed

lemma query_hash_eq:
  "query_hash ub p =
     (let y = uint_of_float ub (fsub (pos_y p) (float_of_int (yMin s_WorldBounds)))
                div kGridCellSize ! 1
      in cell_hash (wrap_cell y) y)"
  by (simp add: query_hash_def Let_def cell_hash_def wrap_cell_def)

lemma query_hash_lt:
  assumes "in_bounds p"
  shows "unat (query_hash ub p) < 4096"
proof -
  define y where "y = uint_of_float ub (fsub (pos_y p) (float_of_int (yMin s_WorldBounds)))
                div kGridCellSize ! 1"
  from assms have "fle (Fin (- of_int 64)) (pos_y p)" "fle (pos_y p) (Fin (of_int 64))"
    by (simp_all add: in_bounds_iff)
  then obtain v where v: "fsub (pos_y p) (Fin (- of_int 64)) = Fin v" "0 \<le> v" "v \<le> 2 * of_int 64"
    by (rule query_coord_range) simp
  then have v32: "v < 2 ^ 32" by simp
  from v have "\<lfloor>v\<rfloor> \<le> 128" by (simp add: floor_le_iff)
  then have "nat \<lfloor>v\<rfloor> \<le> 128" by linarith
  then have "nat \<lfloor>v\<rfloor> div 2 \<le> 64" by linarith
  then have y64: "unat y \<le> 64"
    using uint_of_float_unat [OF v(2) v32, of ub] v(1) by (simp add: y_def unat_div)
  have h: "query_hash ub p = cell_hash (wrap_cell y) y"
    by (simp add: query_hash_eq y_def Let_def)
  show ?thesis
  proof (cases "unat y = 64")
    case True
    then have "unat y = unat (64 :: 32 word)" by simp
    then have "y = 64" by (simp only: word_unat_eq_iff)
    then show ?thesis
      by (simp add: h wrap_cell_64 cell_hash_def kShiftAmount_def)
  next
    case False
    with y64 have "unat y < 64" by simp
    then show ?thesis by (simp add: h wrap_cell_small cell_hash_unat)
  qed
qed

section \<open>Building the grid\<close>

lemma map_unat_word_range: "map unat (word_range lo hi) = [unat lo ..< Suc (unat hi)]"
proof -
  have "unat (word_of_nat n :: 32 word) = n" if "n \<in> set [unat lo ..< Suc (unat hi)]" for n
    using that by (intro le_unat_uoi [of n hi]) auto
  then have "map (\<lambda>n. unat (word_of_nat n :: 32 word)) [unat lo ..< Suc (unat hi)]
               = map (\<lambda>n. n) [unat lo ..< Suc (unat hi)]"
    by (intro map_cong) simp_all
  then show ?thesis by (simp add: word_range_def comp_def)
qed

lemma word_range_le: "x \<in> set (word_range lo hi) \<Longrightarrow> unat x \<le> unat hi"
proof -
  assume "x \<in> set (word_range lo hi)"
  then have "unat x \<in> set (map unat (word_range lo hi))" by simp
  then show ?thesis by (simp only: map_unat_word_range) auto
qed

lemma distinct_word_range: "distinct (word_range lo hi)"
proof -
  have "distinct (map unat (word_range lo hi))" by (simp only: map_unat_word_range) simp
  then show ?thesis by (simp add: distinct_map)
qed

lemma distinct_cell_hashes:
  assumes "unat hi0 \<le> 63" "unat hi1 \<le> 63"
  shows "distinct (map (\<lambda>(y, x). unat (cell_hash x y))
                       (List.product (word_range lo1 hi1) (word_range lo0 hi0)))"
proof -
  have d: "distinct (List.product (word_range lo1 hi1) (word_range lo0 hi0))"
    by (simp add: distinct_product distinct_word_range)
  have "inj_on (\<lambda>(y, x). unat (cell_hash x y))
          (set (List.product (word_range lo1 hi1) (word_range lo0 hi0)))"
  proof (rule inj_onI)
    fix p q
    assume p: "p \<in> set (List.product (word_range lo1 hi1) (word_range lo0 hi0))"
      and q: "q \<in> set (List.product (word_range lo1 hi1) (word_range lo0 hi0))"
      and e: "(case p of (y, x) \<Rightarrow> unat (cell_hash x y)) = (case q of (y, x) \<Rightarrow> unat (cell_hash x y))"
    obtain y x where px: "p = (y, x)" by (cases p)
    obtain y' x' where qx: "q = (y', x')" by (cases q)
    from p px assms have b: "unat x \<le> 63" "unat y \<le> 63"
      using word_range_le [of x lo0 hi0] word_range_le [of y lo1 hi1] by auto
    from q qx assms have b': "unat x' \<le> 63" "unat y' \<le> 63"
      using word_range_le [of x' lo0 hi0] word_range_le [of y' lo1 hi1] by auto
    from e have e': "64 * unat x + unat y = 64 * unat x' + unat y'"
      by (simp add: px qx cell_hash_unat b b')
    with b b' have ux: "unat x = unat x'" by linarith
    with e' have "unat y = unat y'" by simp
    note ux this
    then show "p = q" by (simp add: px qx word_unat_eq_iff)
  qed
  with d show ?thesis by (simp add: distinct_map)
qed

lemma cell_hashes_lt:
  assumes "unat hi0 \<le> 63" "unat hi1 \<le> 63"
    and "p \<in> set (List.product (word_range lo1 hi1) (word_range lo0 hi0))"
  shows "(case p of (y, x) \<Rightarrow> unat (cell_hash x y)) < 4096"
proof -
  obtain y x where px: "p = (y, x)" by (cases p)
  from assms px have b: "unat x \<le> 63" "unat y \<le> 63"
    using word_range_le [of x lo0 hi0] word_range_le [of y lo1 hi1] by auto
  then show ?thesis by (simp add: px cell_hash_unat)
qed

lemma grid_insert_Inr:
  assumes "unat (cell_hash x y) < 4096" "unat (cnt (unat (cell_hash x y))) < kAvoidCount c"
  shows "grid_insert c ia y x (g, cnt) =
     Inr (g(unat (cell_hash x y) := (g (unat (cell_hash x y)))(unat (cnt (unat (cell_hash x y))) := ia)),
          cnt(unat (cell_hash x y) := cnt (unat (cell_hash x y)) + 1))"
  using assms by (simp add: grid_insert_def kCellCount_def Let_def)

lemma grid_insert_cells:
  fixes cells :: "(32 word \<times> 32 word) list"
  assumes "distinct (map (\<lambda>(y, x). unat (cell_hash x y)) cells)"
    and "\<And>p. p \<in> set cells \<Longrightarrow> (case p of (y, x) \<Rightarrow> unat (cell_hash x y)) < 4096"
    and "\<And>p. p \<in> set cells \<Longrightarrow> unat (cnt (case p of (y, x) \<Rightarrow> unat (cell_hash x y))) < kAvoidCount c"
  shows "\<exists>g' cnt'. for_loop cells (\<lambda>(y, x). grid_insert c ia y x) (g, cnt) = Inr (g', cnt')
     \<and> (\<forall>h. cnt' h = (if h \<in> (\<lambda>(y, x). unat (cell_hash x y)) ` set cells then cnt h + 1 else cnt h))
     \<and> (\<forall>h slot. g' h slot =
           (if h \<in> (\<lambda>(y, x). unat (cell_hash x y)) ` set cells \<and> slot = unat (cnt h)
            then ia else g h slot))"
  using assms
proof (induction cells arbitrary: g cnt)
  case Nil
  show ?case by simp
next
  case (Cons p rest)
  obtain y x where p: "p = (y, x)" by (cases p)
  define h0 where "h0 = unat (cell_hash x y)"
  define g1 where "g1 = g(h0 := (g h0)(unat (cnt h0) := ia))"
  define cnt1 where "cnt1 = cnt(h0 := cnt h0 + 1)"
  from Cons.prems(2) [of p] Cons.prems(3) [of p]
  have step: "grid_insert c ia y x (g, cnt) = Inr (g1, cnt1)"
    unfolding g1_def cnt1_def h0_def by (intro grid_insert_Inr) (simp_all add: p)
  from Cons.prems(1) have fresh: "h0 \<notin> (\<lambda>(y, x). unat (cell_hash x y)) ` set rest"
    and d: "distinct (map (\<lambda>(y, x). unat (cell_hash x y)) rest)"
    by (simp_all add: p h0_def)
  have "\<exists>g' cnt'. for_loop rest (\<lambda>(y, x). grid_insert c ia y x) (g1, cnt1) = Inr (g', cnt')
     \<and> (\<forall>h. cnt' h = (if h \<in> (\<lambda>(y, x). unat (cell_hash x y)) ` set rest then cnt1 h + 1 else cnt1 h))
     \<and> (\<forall>h slot. g' h slot =
           (if h \<in> (\<lambda>(y, x). unat (cell_hash x y)) ` set rest \<and> slot = unat (cnt1 h)
            then ia else g1 h slot))"
  proof (rule Cons.IH [OF d])
    fix q assume q: "q \<in> set rest"
    then show "(case q of (y, x) \<Rightarrow> unat (cell_hash x y)) < 4096"
      using Cons.prems(2) [of q] by simp
    from q fresh have "(case q of (y, x) \<Rightarrow> unat (cell_hash x y)) \<noteq> h0" by force
    then show "unat (cnt1 (case q of (y, x) \<Rightarrow> unat (cell_hash x y))) < kAvoidCount c"
      using Cons.prems(3) [of q] q by (simp add: cnt1_def)
  qed
  then obtain g' cnt' where
    r: "for_loop rest (\<lambda>(y, x). grid_insert c ia y x) (g1, cnt1) = Inr (g', cnt')"
    and c: "\<And>h. cnt' h = (if h \<in> (\<lambda>(y, x). unat (cell_hash x y)) ` set rest then cnt1 h + 1 else cnt1 h)"
    and e: "\<And>h slot. g' h slot =
           (if h \<in> (\<lambda>(y, x). unat (cell_hash x y)) ` set rest \<and> slot = unat (cnt1 h)
            then ia else g1 h slot)"
    by blast
  have "for_loop (p # rest) (\<lambda>(y, x). grid_insert c ia y x) (g, cnt) = Inr (g', cnt')"
    by (simp add: p step r)
  moreover have "cnt' h = (if h \<in> (\<lambda>(y, x). unat (cell_hash x y)) ` set (p # rest) then cnt h + 1 else cnt h)" for h
    using fresh by (auto simp add: c cnt1_def p h0_def)
  moreover have "g' h slot =
           (if h \<in> (\<lambda>(y, x). unat (cell_hash x y)) ` set (p # rest) \<and> slot = unat (cnt h)
            then ia else g h slot)" for h slot
    using fresh by (auto simp add: e cnt1_def g1_def p h0_def)
  ultimately show ?case by blast
qed

lemma grid_add_in_bounds:
  assumes "ia < length ps" "in_bounds (ps ! ia)" "\<And>h. unat (cnt h) < kAvoidCount c"
  shows "\<exists>g' cnt' V. grid_add c ub ps ia (g, cnt) = Inr (g', cnt')
     \<and> (\<forall>h. cnt' h = (if h \<in> V then cnt h + 1 else cnt h))
     \<and> (\<forall>h slot. g' h slot = (if h \<in> V \<and> slot = unat (cnt h) then ia else g h slot))"
proof -
  define t0 where "t0 = wrap_cell (uint_of_float ub
            (fsub (fadd (pos_x (ps ! ia)) kAvoidDistance) (float_of_int (xMin s_WorldBounds)))
          div kGridCellSize ! 0)"
  define t1 where "t1 = wrap_cell (uint_of_float ub
            (fsub (fadd (pos_y (ps ! ia)) kAvoidDistance) (float_of_int (yMin s_WorldBounds)))
          div kGridCellSize ! 1)"
  define b0 where "b0 = wrap_cell (uint_of_float ub
            (fsub (fsub (pos_x (ps ! ia)) kAvoidDistance) (float_of_int (xMin s_WorldBounds)))
          div kGridCellSize ! 0)"
  define b1 where "b1 = wrap_cell (uint_of_float ub
            (fsub (fsub (pos_y (ps ! ia)) kAvoidDistance) (float_of_int (yMin s_WorldBounds)))
          div kGridCellSize ! 1)"
  define cells where "cells = List.product (word_range b1 t1) (word_range b0 t0)"
  from assms(2) have t: "unat t0 \<le> 63" "unat t1 \<le> 63"
    unfolding t0_def t1_def by (rule top_cells_le)+
  have eq: "grid_add c ub ps ia (g, cnt) = for_loop cells (\<lambda>(y, x). grid_insert c ia y x) (g, cnt)"
    using assms(1)
    unfolding grid_add_def Let_def for_loop_nested cells_def t0_def t1_def b0_def b1_def
    by (simp only: if_True)
  have "\<exists>g' cnt'. for_loop cells (\<lambda>(y, x). grid_insert c ia y x) (g, cnt) = Inr (g', cnt')
     \<and> (\<forall>h. cnt' h = (if h \<in> (\<lambda>(y, x). unat (cell_hash x y)) ` set cells then cnt h + 1 else cnt h))
     \<and> (\<forall>h slot. g' h slot =
           (if h \<in> (\<lambda>(y, x). unat (cell_hash x y)) ` set cells \<and> slot = unat (cnt h)
            then ia else g h slot))"
  proof (rule grid_insert_cells)
    show "distinct (map (\<lambda>(y, x). unat (cell_hash x y)) cells)"
      unfolding cells_def using t by (rule distinct_cell_hashes)
    show "(case p of (y, x) \<Rightarrow> unat (cell_hash x y)) < 4096" if "p \<in> set cells" for p
      using t that unfolding cells_def by (rule cell_hashes_lt)
    show "unat (cnt (case p of (y, x) \<Rightarrow> unat (cell_hash x y))) < kAvoidCount c" for p
      by (rule assms(3))
  qed
  then show ?thesis unfolding eq by blast
qed

lemma unat_plus_one_le: "unat (w + 1 :: 32 word) \<le> unat w + 1"
  by (simp add: unat_word_ariths)

lemma rebuild_grid_in_bounds:
  assumes len: "kObjectCount c + kAvoidCount c \<le> length ps"
    and inb: "\<And>ia. kObjectCount c \<le> ia \<Longrightarrow> ia < kObjectCount c + kAvoidCount c \<Longrightarrow> in_bounds (ps ! ia)"
  shows "\<exists>g' cnt'. rebuild_grid c ub ps g = Inr (g', cnt') \<and> (\<forall>h. unat (cnt' h) \<le> kAvoidCount c)"
proof -
  define I where "I k gc \<longleftrightarrow> (\<forall>h. unat (snd gc h) \<le> k - kObjectCount c)"
    for k and gc :: "grid \<times> counts"
  have "\<exists>gc'. for_loop [kObjectCount c ..< kObjectCount c + kAvoidCount c]
                 (grid_add c ub ps) (g, \<lambda>hash. 0) = Inr gc'
              \<and> I (kObjectCount c + kAvoidCount c) gc'"
  proof (rule for_loop_upt_total)
    show "kObjectCount c \<le> kObjectCount c + kAvoidCount c" by simp
    show "I (kObjectCount c) (g, \<lambda>hash. 0)" by (simp add: I_def)
    show "\<exists>gc'. grid_add c ub ps ia gc = Inr gc' \<and> I (Suc ia) gc'"
      if "kObjectCount c \<le> ia" "ia < kObjectCount c + kAvoidCount c" "I ia gc" for ia gc
    proof -
      obtain g0 cnt where gc: "gc = (g0, cnt)" by (cases gc)
      from that(3) have le: "unat (cnt h) \<le> ia - kObjectCount c" for h
        by (simp add: I_def gc)
      have cap: "unat (cnt h) < kAvoidCount c" for h
        using le [of h] that(1,2) by linarith
      from that(2) len have "ia < length ps" by simp
      moreover from that(1,2) have "in_bounds (ps ! ia)" by (rule inb)
      ultimately obtain g' cnt' V where
        r: "grid_add c ub ps ia (g0, cnt) = Inr (g', cnt')"
        and c: "\<And>h. cnt' h = (if h \<in> V then cnt h + 1 else cnt h)"
        using grid_add_in_bounds [of ia ps cnt c ub g0] cap by blast
      have "unat (cnt' h) \<le> Suc ia - kObjectCount c" for h
        using le [of h] unat_plus_one_le [of "cnt h"] that(1) by (auto simp add: c)
      with r show ?thesis by (simp add: I_def gc)
    qed
  qed
  then show ?thesis by (auto simp add: rebuild_grid_def I_def)
qed

lemma grid_insert_valid:
  assumes "grid_insert c ia y x (g, cnt) = Inr (g', cnt')"
    and "\<And>h slot. slot < unat (cnt h) \<Longrightarrow> lo \<le> g h slot \<and> g h slot < hi"
    and "lo \<le> ia" "ia < hi"
  shows "slot < unat (cnt' h) \<Longrightarrow> lo \<le> g' h slot \<and> g' h slot < hi"
proof -
  assume s: "slot < unat (cnt' h)"
  define h0 where "h0 = unat (cell_hash x y)"
  from assms(1) have g': "g' = g(h0 := (g h0)(unat (cnt h0) := ia))"
    and cnt': "cnt' = cnt(h0 := cnt h0 + 1)"
    by (simp_all add: grid_insert_def Let_def h0_def split: if_splits)
  show ?thesis
  proof (cases "h = h0 \<and> slot = unat (cnt h0)")
    case True
    with assms(3,4) show ?thesis by (simp add: g')
  next
    case False
    have "slot < unat (cnt h)"
    proof (cases "h = h0")
      case True
      with s have "slot < unat (cnt h0 + 1)" by (simp add: cnt')
      with unat_plus_one_le [of "cnt h0"] False True show ?thesis by simp
    next
      case False
      with s show ?thesis by (simp add: cnt')
    qed
    then have "lo \<le> g h slot \<and> g h slot < hi" by (rule assms(2))
    with False show ?thesis by (auto simp add: g')
  qed
qed

lemma rebuild_grid_valid:
  assumes "rebuild_grid c ub ps g = Inr (g', cnt')" "slot < unat (cnt' h)"
  shows "kObjectCount c \<le> g' h slot \<and> g' h slot < kObjectCount c + kAvoidCount c"
proof -
  define P where "P gc \<longleftrightarrow> (\<forall>h slot. slot < unat (snd gc h) \<longrightarrow>
       kObjectCount c \<le> fst gc h slot \<and> fst gc h slot < kObjectCount c + kAvoidCount c)"
    for gc :: "grid \<times> counts"
  have ins: "P gc'" if "P gc" "grid_insert c ia y x gc = Inr gc'"
    "kObjectCount c \<le> ia" "ia < kObjectCount c + kAvoidCount c" for gc gc' ia y x
  proof -
    obtain g0 cnt0 where gc: "gc = (g0, cnt0)" by (cases gc)
    obtain g1 cnt1 where gc': "gc' = (g1, cnt1)" by (cases gc')
    from that(1) have v: "\<And>h slot. slot < unat (cnt0 h) \<Longrightarrow>
        kObjectCount c \<le> g0 h slot \<and> g0 h slot < kObjectCount c + kAvoidCount c"
      by (simp add: P_def gc)
    show ?thesis
      unfolding P_def gc' using grid_insert_valid [OF that(2) [unfolded gc gc'] v that(3,4)]
      by simp
  qed
  have add: "P gc'" if "P gc" "grid_add c ub ps ia gc = Inr gc'"
    "kObjectCount c \<le> ia" "ia < kObjectCount c + kAvoidCount c" for gc gc' ia
  proof -
    from that(2) obtain ys xs where
      l: "for_loop ys (\<lambda>y. for_loop xs (grid_insert c ia y)) gc = Inr gc'"
      by (auto simp add: grid_add_def Let_def split: if_splits)
    show ?thesis
    proof (rule for_loop_preserve [where P = P, OF l that(1)])
      fix y t t' assume t: "P t" "for_loop xs (grid_insert c ia y) t = Inr t'"
      show "P t'"
      proof (rule for_loop_preserve [where P = P, OF t(2) t(1)])
        fix x u u' assume "P u" "grid_insert c ia y x u = Inr u'"
        then show "P u'" using that(3,4) by (rule ins)
      qed
    qed
  qed
  have "P (g', cnt')"
  proof (rule for_loop_preserve [where P = P, OF assms(1) [unfolded rebuild_grid_def]])
    show "P (g, \<lambda>hash. 0)" by (simp add: P_def)
    show "P t'" if "i \<in> set [kObjectCount c ..< kObjectCount c + kAvoidCount c]" "P t"
      "grid_add c ub ps i t = Inr t'" for i t t'
      using that by (intro add [of t i t']) simp_all
  qed
  with assms(2) show ?thesis by (simp add: P_def)
qed

lemma unat_plus_one_cases: "unat (w + 1 :: 32 word) = unat w + 1 \<or> unat (w + 1) = 0"
proof (cases "unat w + 1 < 2 ^ 32")
  case True
  then show ?thesis by (simp add: unat_word_ariths)
next
  case False
  moreover have "unat w < 2 ^ 32" using unsigned_less [of w] by simp
  ultimately have "unat w + 1 = 2 ^ 32" by simp
  then have "unat (w + 1) = 0" by (simp add: unat_word_ariths)
  then show ?thesis ..
qed

lemma rebuild_grid_distinct:
  assumes len: "kObjectCount c + kAvoidCount c \<le> length ps"
    and inb: "\<And>ia. kObjectCount c \<le> ia \<Longrightarrow> ia < kObjectCount c + kAvoidCount c \<Longrightarrow> in_bounds (ps ! ia)"
  shows "\<exists>g' cnt'. rebuild_grid c ub ps g = Inr (g', cnt')
    \<and> (\<forall>h. distinct (map (g' h) [0 ..< unat (cnt' h)]))"
proof -
  define I where "I k gc \<longleftrightarrow> (\<forall>h. unat (snd gc h) \<le> k - kObjectCount c)
      \<and> (\<forall>h slot. slot < unat (snd gc h) \<longrightarrow> fst gc h slot < k)
      \<and> (\<forall>h. distinct (map (fst gc h) [0 ..< unat (snd gc h)]))"
    for k and gc :: "grid \<times> counts"
  have "\<exists>gc'. for_loop [kObjectCount c ..< kObjectCount c + kAvoidCount c]
                 (grid_add c ub ps) (g, \<lambda>hash. 0) = Inr gc'
              \<and> I (kObjectCount c + kAvoidCount c) gc'"
  proof (rule for_loop_upt_total)
    show "kObjectCount c \<le> kObjectCount c + kAvoidCount c" by simp
    show "I (kObjectCount c) (g, \<lambda>hash. 0)" by (simp add: I_def)
    show "\<exists>gc'. grid_add c ub ps ia gc = Inr gc' \<and> I (Suc ia) gc'"
      if "kObjectCount c \<le> ia" "ia < kObjectCount c + kAvoidCount c" "I ia gc" for ia gc
    proof -
      obtain g0 cnt where gc: "gc = (g0, cnt)" by (cases gc)
      from that(3) have le: "unat (cnt h) \<le> ia - kObjectCount c"
        and old: "slot < unat (cnt h) \<Longrightarrow> g0 h slot < ia"
        and dist: "distinct (map (g0 h) [0 ..< unat (cnt h)])" for h slot
        by (simp_all add: I_def gc)
      have cap: "unat (cnt h) < kAvoidCount c" for h
        using le [of h] that(1,2) by linarith
      from that(2) len have "ia < length ps" by simp
      moreover from that(1,2) have "in_bounds (ps ! ia)" by (rule inb)
      ultimately obtain g' cnt' V where
        r: "grid_add c ub ps ia (g0, cnt) = Inr (g', cnt')"
        and c: "\<And>h. cnt' h = (if h \<in> V then cnt h + 1 else cnt h)"
        and e: "\<And>h slot. g' h slot = (if h \<in> V \<and> slot = unat (cnt h) then ia else g0 h slot)"
        using grid_add_in_bounds [of ia ps cnt c ub g0] cap by blast
      have 1: "unat (cnt' h) \<le> Suc ia - kObjectCount c" for h
        using le [of h] unat_plus_one_le [of "cnt h"] that(1) by (auto simp add: c)
      have 2: "g' h slot < Suc ia" if "slot < unat (cnt' h)" for h slot
      proof (cases "h \<in> V \<and> slot = unat (cnt h)")
        case True
        then show ?thesis by (simp add: e)
      next
        case False
        with that unat_plus_one_le [of "cnt h"] have "slot < unat (cnt h)"
          by (auto simp add: c split: if_splits)
        with False old [of slot h] show ?thesis by (auto simp add: e)
      qed
      have 3: "distinct (map (g' h) [0 ..< unat (cnt' h)])" for h
      proof (cases "h \<in> V \<and> unat (cnt h + 1) = unat (cnt h) + 1")
        case True
        then have m: "map (g' h) [0 ..< unat (cnt' h)] = map (g0 h) [0 ..< unat (cnt h)] @ [ia]"
          by (simp add: c e)
        have "ia \<notin> set (map (g0 h) [0 ..< unat (cnt h)])"
        proof
          assume "ia \<in> set (map (g0 h) [0 ..< unat (cnt h)])"
          then obtain slot where "slot < unat (cnt h)" "g0 h slot = ia" by auto
          with old [of slot h] show False by simp
        qed
        with dist [of h] show ?thesis by (simp add: m)
      next
        case False
        show ?thesis
        proof (cases "h \<in> V")
          case True
          with False unat_plus_one_cases [of "cnt h"] have "unat (cnt' h) = 0"
            by (simp add: c)
          then show ?thesis by simp
        next
          case False
          then have "map (g' h) [0 ..< unat (cnt' h)] = map (g0 h) [0 ..< unat (cnt h)]"
            by (simp add: c e)
          with dist [of h] show ?thesis by simp
        qed
      qed
      from r 1 2 3 show ?thesis by (simp add: I_def gc)
    qed
  qed
  then show ?thesis by (auto simp add: rebuild_grid_def I_def)
qed

section \<open>What the systems leave unchanged\<close>

lemma frame_but_refl [simp]: "frame_but io s s"
  by (simp add: frame_but_def)

lemma frame_but_trans: "frame_but io s t \<Longrightarrow> frame_but io t u \<Longrightarrow> frame_but io s u"
  by (simp add: frame_but_def)

lemma avoid_step_frame:
  assumes "avoid_step c g hash dt io ia s = Inr s'"
  shows "frame_but io s s'"
  using assms
  by (auto simp add: avoid_step_def Let_def frame_but_def map_update list_eq_iff_nth_eq nth_list_update
      split: if_splits)

lemma avoid_step_far:
  assumes "avoid_step c g hash dt io ia s = Inr s'"
    and "\<not> too_close (m_Positions s ! g (unat hash) ia) (m_Positions s ! io)"
  shows "s' = s"
  using assms by (auto simp add: avoid_step_def Let_def split: if_splits)

lemma avoid_step_total:
  assumes "ia < kAvoidCount c" "g (unat hash) ia < length (m_Positions s)"
    "g (unat hash) ia < length (m_Sprites s)" "io < length (m_Positions s)"
    "io < length (m_Moves s)" "io < length (m_Sprites s)"
  shows "\<exists>s'. avoid_step c g hash dt io ia s = Inr s'"
  using assms by (simp add: avoid_step_def Let_def)

lemma avoid_query_frame:
  assumes "avoid_query c ub (g, cnt) dt io s = Inr s'"
  shows "frame_but io s s'"
proof -
  from assms obtain n hash where
    l: "for_loop [0 ..< n] (avoid_step c g hash dt io) s = Inr s'"
    by (auto simp add: avoid_query_def Let_def split: if_splits)
  show ?thesis
  proof (rule for_loop_preserve [where P = "frame_but io s", OF l])
    show "frame_but io s s" by simp
    show "frame_but io s t'" if "frame_but io s t" "avoid_step c g hash dt io i t = Inr t'" for i t t'
      using that(1) avoid_step_frame [OF that(2)] by (rule frame_but_trans)
  qed
qed

lemma same_shape_refl [simp]: "same_shape s s"
  by (simp add: same_shape_def)

lemma same_shape_trans: "same_shape s t \<Longrightarrow> same_shape t u \<Longrightarrow> same_shape s u"
  by (simp add: same_shape_def)

lemma frame_but_shape: "frame_but io s s' \<Longrightarrow> same_shape s s'"
  by (simp add: frame_but_def same_shape_def)

lemma MoveSystem_step_sprites:
  assumes "MoveSystem_step dt io s = Inr s'"
  shows "m_Sprites s' = m_Sprites s" "same_shape s s'"
  using assms
  by (auto simp add: MoveSystem_step_def same_shape_def split: if_splits prod.splits)

lemma MoveSystem_sprites:
  assumes "MoveSystem_UpdateSystem c s dt = Inr s'"
  shows "m_Sprites s' = m_Sprites s" "same_shape s s'"
proof -
  have "m_Sprites s' = m_Sprites s \<and> same_shape s s'"
  proof (rule for_loop_preserve [where P = "\<lambda>t. m_Sprites t = m_Sprites s \<and> same_shape s t",
        OF assms [unfolded MoveSystem_UpdateSystem_def]])
    show "m_Sprites s = m_Sprites s \<and> same_shape s s" by simp
    show "m_Sprites t' = m_Sprites s \<and> same_shape s t'"
      if "m_Sprites t = m_Sprites s \<and> same_shape s t" "MoveSystem_step dt i t = Inr t'" for i t t'
      using that MoveSystem_step_sprites [OF that(2)] by (auto intro: same_shape_trans)
  qed
  then show "m_Sprites s' = m_Sprites s" "same_shape s s'" by simp_all
qed

lemma AvoidanceSystem_shape:
  assumes "AvoidanceSystem_UpdateSystem c ub (g, s) dt = Inr (g', s')"
  shows "same_shape s s'"
proof -
  from assms obtain gc where
    l: "for_loop [0 ..< kObjectCount c] (avoid_query c ub gc dt) s = Inr s'"
    by (auto simp add: AvoidanceSystem_UpdateSystem_def split: sum.splits)
  obtain g1 cnt where gc: "gc = (g1, cnt)" by (cases gc)
  show ?thesis
  proof (rule for_loop_preserve [where P = "same_shape s", OF l])
    show "same_shape s s" by simp
    show "same_shape s t'" if "same_shape s t" "avoid_query c ub gc dt i t = Inr t'" for i t t'
      using that(1) frame_but_shape [OF avoid_query_frame [OF that(2) [unfolded gc]]]
      by (rule same_shape_trans)
  qed
qed

lemma game_update_shape:
  assumes "game_update c ub (g, s) posData spriteData dt = Inr ((g', s'), posData', spriteData', n)"
  shows "same_shape s s'"
    and "n = sint (word_of_nat (length (m_Positions s)) :: 32 word)"
    and "length posData' = length posData" "length spriteData' = length spriteData"
proof -
  from assms obtain s1 where
    m: "MoveSystem_UpdateSystem c s dt = Inr s1"
    and a: "AvoidanceSystem_UpdateSystem c ub (g, s1) dt = Inr (g', s')"
    and n: "n = sint (word_of_nat (length (m_Positions s')) :: 32 word)"
    and p: "copy_positions (m_Positions s') posData = Inr posData'"
    and q: "copy_sprites (m_Sprites s') spriteData = Inr spriteData'"
    by (auto simp add: game_update_def split: sum.splits)
  from MoveSystem_sprites(2) [OF m] AvoidanceSystem_shape [OF a]
  show sh: "same_shape s s'" by (rule same_shape_trans)
  with n show "n = sint (word_of_nat (length (m_Positions s)) :: 32 word)"
    by (simp add: same_shape_def)
  from p show "length posData' = length posData"
    by (auto simp add: copy_positions_def split: if_splits)
  from q show "length spriteData' = length spriteData"
    by (auto simp add: copy_sprites_def split: if_splits)
qed

lemma game_run_shape:
  assumes "game_run c ub (g, s) posData spriteData dts = Inr ((g', s'), posData', spriteData', ns)"
  shows "same_shape s s'"
    and "ns = replicate (length dts) (sint (word_of_nat (length (m_Positions s)) :: 32 word))"
  using assms
proof (induction dts arbitrary: g s posData spriteData ns)
  case Nil
  { case 1 then show ?case by simp }
  { case 2 then show ?case by simp }
next
  case (Cons dt dts)
  { case 1
    then obtain g1 s1 P1 S1 n ns' where
      u: "game_update c ub (g, s) posData spriteData dt = Inr ((g1, s1), P1, S1, n)"
      and r: "game_run c ub (g1, s1) P1 S1 dts = Inr ((g', s'), posData', spriteData', ns')"
      by (auto split: sum.splits)
    from game_update_shape(1) [OF u] Cons.IH(1) [OF r] show ?case by (rule same_shape_trans) }
  { case 2
    then obtain g1 s1 P1 S1 n ns' where
      u: "game_update c ub (g, s) posData spriteData dt = Inr ((g1, s1), P1, S1, n)"
      and r: "game_run c ub (g1, s1) P1 S1 dts = Inr ((g', s'), posData', spriteData', ns')"
      and ns: "ns = n # ns'"
      by (auto split: sum.splits)
    from game_update_shape(1) [OF u] have "length (m_Positions s1) = length (m_Positions s)"
      by (simp add: same_shape_def)
    with game_update_shape(2) [OF u] Cons.IH(2) [OF r] ns show ?case by simp }
qed

section \<open>The avoidance pass on a scene within the bounds\<close>

lemma avoid_query_total:
  assumes ok: "scene_ok c s" and io: "io < kObjectCount c + kAvoidCount c"
    and inb: "in_bounds (m_Positions s ! io)"
    and valid: "\<And>h slot. slot < unat (cnt h) \<Longrightarrow> g h slot < kObjectCount c + kAvoidCount c"
    and cap: "\<And>h. unat (cnt h) \<le> kAvoidCount c"
  shows "\<exists>s'. avoid_query c ub (g, cnt) dt io s = Inr s' \<and> frame_but io s s'"
proof -
  define hash where "hash = query_hash ub (m_Positions s ! io)"
  from inb have h: "unat hash < 4096" unfolding hash_def by (rule query_hash_lt)
  have "\<exists>s'. for_loop [0 ..< unat (cnt (unat hash))] (avoid_step c g hash dt io) s = Inr s'
          \<and> frame_but io s s'"
  proof (rule for_loop_upt_total [where I = "\<lambda>i. frame_but io s"])
    show "0 \<le> unat (cnt (unat hash))" by simp
    show "frame_but io s s" by simp
    show "\<exists>t'. avoid_step c g hash dt io ia t = Inr t' \<and> frame_but io s t'"
      if "ia < unat (cnt (unat hash))" "frame_but io s t" for ia t
    proof -
      from that(2) ok have len: "length (m_Positions t) = kObjectCount c + kAvoidCount c"
        "length (m_Sprites t) = kObjectCount c + kAvoidCount c"
        "length (m_Moves t) = kObjectCount c + kAvoidCount c"
        by (simp_all add: frame_but_def scene_ok_def)
      from that(1) cap [of "unat hash"] have "ia < kAvoidCount c" by simp
      moreover from that(1) have "g (unat hash) ia < kObjectCount c + kAvoidCount c" by (rule valid)
      ultimately obtain t' where t': "avoid_step c g hash dt io ia t = Inr t'"
        using avoid_step_total [of ia c g hash t io dt] io len by auto
      from that(2) avoid_step_frame [OF t'] have "frame_but io s t'" by (rule frame_but_trans)
      with t' show ?thesis by blast
    qed
  qed
  with h io ok show ?thesis
    by (simp add: avoid_query_def Let_def kCellCount_def scene_ok_def flip: hash_def)
qed

lemma query_loop_total:
  assumes ok: "scene_ok c s"
    and inb: "\<And>io. io < kObjectCount c \<Longrightarrow> in_bounds (m_Positions s ! io)"
    and valid: "\<And>h slot. slot < unat (cnt h) \<Longrightarrow> g h slot < kObjectCount c + kAvoidCount c"
    and cap: "\<And>h. unat (cnt h) \<le> kAvoidCount c"
  shows "\<exists>s'. for_loop [0 ..< kObjectCount c] (avoid_query c ub (g, cnt) dt) s = Inr s'"
proof -
  define I where "I i t \<longleftrightarrow> scene_ok c t \<and> (\<forall>j\<ge>i. m_Positions t ! j = m_Positions s ! j)"
    for i :: nat and t :: Entities
  have "\<exists>s'. for_loop [0 ..< kObjectCount c] (avoid_query c ub (g, cnt) dt) s = Inr s'
          \<and> I (kObjectCount c) s'"
  proof (rule for_loop_upt_total)
    show "0 \<le> kObjectCount c" by simp
    show "I 0 s" using ok by (simp add: I_def)
    show "\<exists>t'. avoid_query c ub (g, cnt) dt i t = Inr t' \<and> I (Suc i) t'"
      if "i < kObjectCount c" "I i t" for i t
    proof -
      from that have okt: "scene_ok c t" and p: "m_Positions t ! i = m_Positions s ! i"
        and rest: "\<And>j. i \<le> j \<Longrightarrow> m_Positions t ! j = m_Positions s ! j"
        by (simp_all add: I_def)
      from that(1) have "in_bounds (m_Positions t ! i)" unfolding p by (rule inb)
      with okt that(1) obtain t' where
        r: "avoid_query c ub (g, cnt) dt i t = Inr t'" and f: "frame_but i t t'"
        using avoid_query_total [of c t i cnt g ub dt] valid cap by auto
      from f okt rest have "I (Suc i) t'"
        by (auto simp add: I_def frame_but_def scene_ok_def)
      with r show ?thesis by blast
    qed
  qed
  then show ?thesis by blast
qed

lemma AvoidanceSystem_total:
  assumes "scene_ok c s" "list_all in_bounds (m_Positions s)"
  shows "\<exists>avoidEntityGrid' activeAvoidCount s'.
           rebuild_grid c ub (m_Positions s) avoidEntityGrid = Inr (avoidEntityGrid', activeAvoidCount)
         \<and> (\<forall>hash. unat (activeAvoidCount hash) \<le> kAvoidCount c)
         \<and> (\<forall>io < kObjectCount c.
               unat (query_hash ub (m_Positions s ! io)) < unat (kCellCount * kCellCount))
         \<and> AvoidanceSystem_UpdateSystem c ub (avoidEntityGrid, s) deltaTime
               = Inr (avoidEntityGrid', s')"
proof -
  from assms have inb: "in_bounds (m_Positions s ! j)" if "j < kObjectCount c + kAvoidCount c" for j
    using that by (simp add: list_all_length scene_ok_def)
  from assms(1) have "kObjectCount c + kAvoidCount c \<le> length (m_Positions s)"
    by (simp add: scene_ok_def)
  then obtain g' cnt where
    b: "rebuild_grid c ub (m_Positions s) avoidEntityGrid = Inr (g', cnt)"
    and cap: "\<And>h. unat (cnt h) \<le> kAvoidCount c"
    using rebuild_grid_in_bounds [of c "m_Positions s" ub avoidEntityGrid] inb by auto
  have valid: "g' h slot < kObjectCount c + kAvoidCount c" if "slot < unat (cnt h)" for h slot
    using rebuild_grid_valid [OF b that] by simp
  from assms(1) obtain s' where
    q: "for_loop [0 ..< kObjectCount c] (avoid_query c ub (g', cnt) deltaTime) s = Inr s'"
    using query_loop_total [of c s cnt g' ub deltaTime] inb valid cap by auto
  have "unat (query_hash ub (m_Positions s ! io)) < unat (kCellCount * kCellCount)"
    if "io < kObjectCount c" for io
    using query_hash_lt [OF inb [of io]] that by (simp add: kCellCount_def)
  with b cap q show ?thesis
    by (simp add: AvoidanceSystem_UpdateSystem_def)
qed

lemma game_update_total:
  assumes "scene_ok c s" "list_all finite_position (m_Positions s)"
    "list_all finite_move (m_Moves s)" "is_finite dt"
    "kObjectCount c + kAvoidCount c \<le> length posData"
    "kObjectCount c + kAvoidCount c \<le> length spriteData"
  shows "\<exists>g' s' posData' spriteData' n.
           game_update c ub (g, s) posData spriteData dt = Inr ((g', s'), posData', spriteData', n)"
proof -
  from MoveSystem_finite_step [OF assms(1-4)] obtain s1 where
    m: "MoveSystem_UpdateSystem c s dt = Inr s1" and ok: "scene_ok c s1"
    and b: "list_all in_bounds (m_Positions s1)"
    by blast
  from AvoidanceSystem_total [OF ok b, of ub g dt] obtain g' s' where
    a: "AvoidanceSystem_UpdateSystem c ub (g, s1) dt = Inr (g', s')"
    by blast
  from AvoidanceSystem_shape [OF a] ok have "scene_ok c s'"
    by (simp add: same_shape_def scene_ok_def)
  with assms(5,6) have "length (m_Positions s') \<le> length posData"
    "length (m_Sprites s') \<le> length spriteData"
    by (simp_all add: scene_ok_def)
  with m a show ?thesis
    by (simp add: game_update_def copy_positions_def copy_sprites_def)
qed

lemma game_run_single:
  assumes "game_update c ub gs posData spriteData dt = Inr (gs', posData', spriteData', n)"
  shows "game_run c ub gs posData spriteData [dt] = Inr (gs', posData', spriteData', [n])"
  using assms by simp

lemma sint_population: "n < 2 ^ 31 \<Longrightarrow> sint (word_of_nat n :: 32 word) = int n"
proof -
  assume n: "n < 2 ^ 31"
  then have "int n < 2 ^ 31" by (metis of_nat_less_iff of_nat_numeral of_nat_power)
  then have "signed_take_bit 31 (int n) = int n"
    by (intro signed_take_bit_int_eq_self) simp_all
  moreover have "(word_of_nat n :: 32 word) = word_of_int (int n)" by simp
  ultimately show ?thesis by (simp only: sint_sbintrunc') simp
qed

section \<open>The grid left by earlier calls\<close>

lemma grid_agree_refl0 [simp]: "grid_agree (g, \<lambda>hash. 0) (g', \<lambda>hash. 0)"
  by (simp add: grid_agree_def)

lemma grid_insert_agree:
  assumes "grid_agree gc gc'"
  shows "rel_sum (=) grid_agree (grid_insert c ia y x gc) (grid_insert c ia y x gc')"
proof -
  obtain g cnt where gc: "gc = (g, cnt)" by (cases gc)
  obtain g' cnt' where gc': "gc' = (g', cnt')" by (cases gc')
  from assms have c: "cnt' = cnt" and e: "\<And>h slot. slot < unat (cnt h) \<Longrightarrow> g h slot = g' h slot"
    by (simp_all add: grid_agree_def gc gc')
  define h0 where "h0 = unat (cell_hash x y)"
  have "g h slot = g' h slot" if "slot < unat (cnt h0 + 1)" "h = h0" "slot \<noteq> unat (cnt h0)" for h slot
    using that unat_plus_one_le [of "cnt h0"] e [of slot h0] by simp
  then show ?thesis
    using e by (auto simp add: grid_insert_def Let_def gc gc' c grid_agree_def simp flip: h0_def)
qed

lemma grid_add_agree:
  assumes "grid_agree gc gc'"
  shows "rel_sum (=) grid_agree (grid_add c ub ps ia gc) (grid_add c ub ps ia gc')"
proof (cases "ia < length ps")
  case True
  have row: "rel_sum (=) grid_agree (for_loop xs (grid_insert c ia y) t) (for_loop xs (grid_insert c ia y) t')"
    if "grid_agree t t'" for xs y t t'
    using that by (rule for_loop_rel) (rule grid_insert_agree)
  have "rel_sum (=) grid_agree (for_loop ys (\<lambda>y. for_loop xs (grid_insert c ia y)) gc)
          (for_loop ys (\<lambda>y. for_loop xs (grid_insert c ia y)) gc')" for ys xs
    using assms by (rule for_loop_rel) (rule row)
  with True show ?thesis
    unfolding grid_add_def Let_def by (simp only: if_True)
next
  case False
  then show ?thesis by (simp add: grid_add_def)
qed

lemma rebuild_grid_agree:
  "rel_sum (=) grid_agree (rebuild_grid c ub ps g) (rebuild_grid c ub ps g')"
  unfolding rebuild_grid_def
  by (rule for_loop_rel) (simp_all add: grid_add_agree)

lemma avoid_step_agree:
  assumes "g (unat hash) ia = g' (unat hash) ia"
  shows "avoid_step c g hash dt io ia s = avoid_step c g' hash dt io ia s"
  using assms by (simp add: avoid_step_def)

lemma avoid_query_agree:
  assumes "grid_agree gc gc'"
  shows "avoid_query c ub gc dt io s = avoid_query c ub gc' dt io s"
proof -
  obtain g cnt where gc: "gc = (g, cnt)" by (cases gc)
  obtain g' cnt' where gc': "gc' = (g', cnt')" by (cases gc')
  from assms have c: "cnt' = cnt" and e: "\<And>h slot. slot < unat (cnt h) \<Longrightarrow> g h slot = g' h slot"
    by (simp_all add: grid_agree_def gc gc')
  have "for_loop [0 ..< unat (cnt (unat hash))] (avoid_step c g hash dt io) s
        = for_loop [0 ..< unat (cnt (unat hash))] (avoid_step c g' hash dt io) s" for hash
  proof (rule for_loop_cong)
    fix i t assume "i \<in> set [0 ..< unat (cnt (unat hash))]"
    then have "g (unat hash) i = g' (unat hash) i" by (intro e) simp
    then show "avoid_step c g hash dt io i t = avoid_step c g' hash dt io i t"
      by (rule avoid_step_agree)
  qed
  then show ?thesis by (simp add: avoid_query_def gc gc' c Let_def)
qed

lemma AvoidanceSystem_agree:
  "map_sum id snd (AvoidanceSystem_UpdateSystem c ub (g, s) dt)
     = map_sum id snd (AvoidanceSystem_UpdateSystem c ub (g', s) dt)"
proof -
  have r: "rel_sum (=) grid_agree (rebuild_grid c ub (m_Positions s) g)
            (rebuild_grid c ub (m_Positions s) g')"
    by (rule rebuild_grid_agree)
  show ?thesis
  proof (cases "rebuild_grid c ub (m_Positions s) g")
    case (Inl e)
    with r have "rebuild_grid c ub (m_Positions s) g' = Inl e"
      by (cases "rebuild_grid c ub (m_Positions s) g'") simp_all
    with Inl show ?thesis by (simp add: AvoidanceSystem_UpdateSystem_def)
  next
    case (Inr gc)
    with r obtain gc' where gc': "rebuild_grid c ub (m_Positions s) g' = Inr gc'"
      and a: "grid_agree gc gc'"
      by (cases "rebuild_grid c ub (m_Positions s) g'") simp_all
    have "for_loop [0 ..< kObjectCount c] (avoid_query c ub gc dt) s
        = for_loop [0 ..< kObjectCount c] (avoid_query c ub gc' dt) s"
      by (rule for_loop_cong) (rule avoid_query_agree [OF a])
    with Inr gc' show ?thesis
      by (simp add: AvoidanceSystem_UpdateSystem_def split: sum.splits)
  qed
qed

lemma game_update_agree:
  "map_sum id (\<lambda>((g, s), r). (s, r)) (game_update c ub (g1, s) P S dt)
     = map_sum id (\<lambda>((g, s), r). (s, r)) (game_update c ub (g2, s) P S dt)"
proof (cases "MoveSystem_UpdateSystem c s dt")
  case (Inl e)
  then show ?thesis by (simp add: game_update_def)
next
  case (Inr s1)
  from AvoidanceSystem_agree [of c ub g1 s1 dt g2] show ?thesis
    by (cases "AvoidanceSystem_UpdateSystem c ub (g1, s1) dt";
        cases "AvoidanceSystem_UpdateSystem c ub (g2, s1) dt")
       (auto simp add: game_update_def Inr split: sum.splits)
qed

section \<open>A hazard at the origin\<close>

lemma origin_corner_xt: "fsub (fadd (Fin 0) kAvoidDistance) (Fin (- 128)) = Fin (8473805 / 65536)"
  by (simp add: kAvoidDistance_eq fsub_def round32_eval)

lemma origin_corner_yt: "fsub (fadd (Fin 0) kAvoidDistance) (Fin (- 64)) = Fin (4279501 / 65536)"
  by (simp add: kAvoidDistance_eq fsub_def round32_eval)

lemma origin_corner_xb: "fsub (fsub (Fin 0) kAvoidDistance) (Fin (- 128)) = Fin (8303411 / 65536)"
  by (simp add: kAvoidDistance_eq fsub_def round32_eval)

lemma origin_corner_yb: "fsub (fsub (Fin 0) kAvoidDistance) (Fin (- 64)) = Fin (16436429 / 262144)"
  by (simp add: kAvoidDistance_eq fsub_def round32_eval)

lemma kAvoidDistance_squared: "fmul kAvoidDistance kAvoidDistance = Fin (7088373 / 4194304)"
  by (simp add: kAvoidDistance_eq round32_eval)

lemma origin_cells:
  "wrap_cell (uint_of_float ub (fsub (fadd (Fin 0) kAvoidDistance) (Fin (- 128))) div 4) = 32"
  "wrap_cell (uint_of_float ub (fsub (fadd (Fin 0) kAvoidDistance) (Fin (- 64))) div 2) = 32"
  "wrap_cell (uint_of_float ub (fsub (fsub (Fin 0) kAvoidDistance) (Fin (- 128))) div 4) = 31"
  "wrap_cell (uint_of_float ub (fsub (fsub (Fin 0) kAvoidDistance) (Fin (- 64))) div 2) = 31"
  by (simp_all add: origin_corner_xt origin_corner_yt origin_corner_xb origin_corner_yb
      float_truncate_def wrap_cell_def kCellCount_def kShiftAmount_def)

lemma word_range_31_32: "word_range 31 32 = [31, 32]"
  by (simp add: word_range_def upt_rec)

lemma rebuild_grid_origin:
  "rebuild_grid \<lparr>kObjectCount = 1, kAvoidCount = 1\<rparr> ub [p, \<lparr>pos_x = Fin 0, pos_y = Fin 0\<rparr>] g
     = Inr (g(2015 := (g 2015)(0 := 1), 2079 := (g 2079)(0 := 1),
              2016 := (g 2016)(0 := 1), 2080 := (g 2080)(0 := 1)),
            (\<lambda>hash. 0)(2015 := 1, 2079 := 1, 2016 := 1, 2080 := 1))"
  by (simp add: rebuild_grid_def grid_add_def origin_cells word_range_31_32 grid_insert_def
      cell_hash_def kShiftAmount_def kCellCount_def upt_rec)

lemma flt_round32_neg: "r \<le> - 1 / 2 \<Longrightarrow> flt (round32 r) (Fin 0)"
proof -
  assume "r \<le> - 1 / 2"
  then have "fle (round32 r) (round32 (- 1 / 2))" by (rule round32_mono)
  moreover have "round32 (- 1 / 2) = Fin (- 1 / 2)"
    using is_float32_half [of "- 1"] by (simp add: is_float32_def)
  ultimately show ?thesis by (cases "round32 r") simp_all
qed

lemma flt_round32_nonneg: "0 \<le> r \<Longrightarrow> \<not> flt (round32 r) (Fin 0)"
proof -
  assume "0 \<le> r"
  then have "fle (round32 0) (round32 r)" by (rule round32_mono)
  then show ?thesis by (cases "round32 r") simp_all
qed

lemma too_close_origin_1: "too_close \<lparr>pos_x = Fin 0, pos_y = Fin 0\<rparr> \<lparr>pos_x = Fin 1, pos_y = Fin 0\<rparr>"
proof -
  have "flt (round32 (1 - 7088373 / 4194304)) (Fin 0)"
    by (rule flt_round32_neg) simp
  then show ?thesis
    by (simp add: too_close_def fsub_def kAvoidDistance_squared)
qed

lemma query_hash_1_0: "query_hash ub \<lparr>pos_x = Fin 1, pos_y = Fin 0\<rparr> = 2080"
  by (simp add: query_hash_eq fsub_def float_truncate_def wrap_cell_def cell_hash_def
      kCellCount_def kShiftAmount_def)

lemma AvoidanceSystem_reaction:
  "AvoidanceSystem_UpdateSystem \<lparr>kObjectCount = 1, kAvoidCount = 1\<rparr> ub
     (g, \<lparr>m_Positions = [\<lparr>pos_x = Fin 1, pos_y = Fin 0\<rparr>, \<lparr>pos_x = Fin 0, pos_y = Fin 0\<rparr>],
         m_Sprites = [sp0, sp1], m_Moves = [m0, m1], m_IdGenerator = k\<rparr>) dt
   = Inr (g(2015 := (g 2015)(0 := 1), 2079 := (g 2079)(0 := 1),
            2016 := (g 2016)(0 := 1), 2080 := (g 2080)(0 := 1)),
          \<lparr>m_Positions =
             [\<lparr>pos_x = fadd (Fin 1) (fmul (fmul (fneg (velx m0)) dt) (round32 (11 / 10))),
               pos_y = fadd (Fin 0) (fmul (fmul (fneg (vely m0)) dt) (round32 (11 / 10)))\<rparr>,
              \<lparr>pos_x = Fin 0, pos_y = Fin 0\<rparr>],
           m_Sprites = [sp0\<lparr>colorR := colorR sp1, colorG := colorG sp1, colorB := colorB sp1\<rparr>, sp1],
           m_Moves = [\<lparr>velx = fneg (velx m0), vely = fneg (vely m0)\<rparr>, m1],
           m_IdGenerator = k\<rparr>)"
  by (cases m0)
     (simp add: AvoidanceSystem_UpdateSystem_def rebuild_grid_origin [unfolded One_nat_def]
       avoid_query_def query_hash_1_0 kCellCount_def avoid_step_def too_close_origin_1 Let_def)

lemma round32_units: "round32 x = Fin r \<Longrightarrow> \<exists>n :: int. r = of_int n / 2 ^ 149"
proof -
  assume "round32 x = Fin r"
  then have "r = sgn x * of_int (round_units (\<bar>x\<bar> * 2 ^ 149)) / 2 ^ 149"
    by (simp add: round32_def Let_def split: if_splits)
  also have "sgn x = of_int (if x = 0 then 0 else if 0 < x then 1 else - 1)"
    by (simp add: sgn_if)
  finally have "r = of_int ((if x = 0 then 0 else if 0 < x then 1 else - 1)
                    * round_units (\<bar>x\<bar> * 2 ^ 149)) / 2 ^ 149"
    by (simp only: of_int_mult)
  then show ?thesis ..
qed

lemma fadd_units: "fadd u v = Fin r \<Longrightarrow> \<exists>n :: int. r = of_int n / 2 ^ 149"
  by (cases u; cases v) (auto dest: round32_units)

lemma round32_min_subnormal: "round32 (- 1 / 2 ^ 149) = Fin (- 1 / 2 ^ 149)"
  by (rule round32_exact [where k = 1 and j = 0]) simp_all

lemma units_gap:
  fixes d :: rat
  assumes "0 < d" "of_int n / d < of_int m / d"
  shows "of_int n / d + - (of_int m / d) \<le> - 1 / d"
proof -
  from assms have "(of_int n :: rat) < of_int m" by (simp add: divide_less_cancel)
  then have "n + 1 \<le> m" by simp
  then have "(of_int (n + 1) :: rat) \<le> of_int m" by (simp only: of_int_le_iff)
  then have "(of_int n :: rat) - of_int m \<le> - 1" by simp
  then have "(of_int n - of_int m) / d \<le> - 1 / d" using assms(1) by (rule divide_right_mono [OF _ less_imp_le])
  then show ?thesis by (simp add: diff_divide_distrib)
qed

lemma flt_fsub_zero_iff:
  assumes "a = fadd u v" "q = of_int m / 2 ^ 149"
  shows "flt (fsub a (Fin q)) (Fin 0) \<longleftrightarrow> flt a (Fin q)"
proof (cases a)
  case (Fin r)
  with assms(1) obtain n :: int where r: "r = of_int n / 2 ^ 149"
    using fadd_units [of u v r] by auto
  show ?thesis
  proof (cases "r < q")
    case True
    then have "r + - q \<le> - 1 / 2 ^ 149"
      unfolding r assms(2) by (intro units_gap) simp_all
    then have "fle (round32 (r + - q)) (round32 (- 1 / 2 ^ 149))" by (rule round32_mono)
    then have "flt (round32 (r + - q)) (Fin 0)"
      unfolding round32_min_subnormal by (cases "round32 (r + - q)") simp_all
    with True Fin show ?thesis by (simp add: fsub_def)
  next
    case False
    then have "0 \<le> r + - q" by simp
    then have "\<not> flt (round32 (r + - q)) (Fin 0)" by (rule flt_round32_nonneg)
    with False Fin show ?thesis by (simp add: fsub_def)
  qed
qed (simp_all add: fsub_def)

lemma too_close_iff:
  "too_close avoidposition myposition
     = flt (fadd (fmul (fsub (pos_x avoidposition) (pos_x myposition))
                       (fsub (pos_x avoidposition) (pos_x myposition)))
                 (fmul (fsub (pos_y avoidposition) (pos_y myposition))
                       (fsub (pos_y avoidposition) (pos_y myposition))))
           (fmul kAvoidDistance kAvoidDistance)"
  unfolding too_close_def Let_def kAvoidDistance_squared
  by (rule flt_fsub_zero_iff [where m = "7088373 * 2 ^ 127", OF refl]) simp

lemma list_length_2: "length xs = 2 \<Longrightarrow> xs = [xs ! 0, xs ! 1]"
  by (cases xs; cases "tl xs") auto

lemma game_update_Inr:
  assumes "MoveSystem_UpdateSystem c s dt = Inr s1"
    and "AvoidanceSystem_UpdateSystem c ub (g, s1) dt = Inr (g', s')"
    and "length (m_Positions s') \<le> length posData" "length (m_Sprites s') \<le> length spriteData"
  shows "game_update c ub (g, s) posData spriteData dt
     = Inr ((g', s'),
            map (\<lambda>p. \<lparr>posX = pos_x p, posY = pos_y p\<rparr>) (m_Positions s')
              @ drop (length (m_Positions s')) posData,
            map (\<lambda>p. \<lparr>colR = colorR p, colG = colorG p, colB = colorB p, sprite = spriteIndex p\<rparr>)
                (m_Sprites s')
              @ drop (length (m_Sprites s')) spriteData,
            sint (word_of_nat (length (m_Positions s')) :: 32 word))"
  using assms by (simp add: game_update_def copy_positions_def copy_sprites_def)

lemma query_loop_far:
  assumes b: "rebuild_grid c ub ps g = Inr (g', cnt)"
    and q: "for_loop [0 ..< kObjectCount c] (avoid_query c ub (g', cnt) dt) s1 = Inr s'"
    and io: "io < kObjectCount c"
    and far: "\<And>h. kObjectCount c \<le> h \<Longrightarrow> h < kObjectCount c + kAvoidCount c \<Longrightarrow>
                \<not> too_close (m_Positions s1 ! h) (m_Positions s1 ! io)"
  shows "m_Positions s' ! io = m_Positions s1 ! io \<and> m_Sprites s' ! io = m_Sprites s1 ! io
       \<and> m_Moves s' ! io = m_Moves s1 ! io"
proof -
  define P where "P t \<longleftrightarrow>
      (m_Positions t ! io = m_Positions s1 ! io \<and> m_Sprites t ! io = m_Sprites s1 ! io
         \<and> m_Moves t ! io = m_Moves s1 ! io)
      \<and> (\<forall>h\<ge>kObjectCount c. m_Positions t ! h = m_Positions s1 ! h)" for t :: Entities
  have "P s'"
  proof (rule for_loop_preserve [where P = P, OF q])
    show "P s1" by (simp add: P_def)
    show "P t'" if i: "i \<in> set [0 ..< kObjectCount c]" and t: "P t"
      and r: "avoid_query c ub (g', cnt) dt i t = Inr t'" for i t t'
    proof (cases "i = io")
      case False
      from i have "i < kObjectCount c" by simp
      with avoid_query_frame [OF r] False t show ?thesis
        by (auto simp add: P_def frame_but_def)
    next
      case True
      define hash where "hash = query_hash ub (m_Positions t ! io)"
      from r True have l: "for_loop [0 ..< unat (cnt (unat hash))] (avoid_step c g' hash dt io) t = Inr t'"
        by (auto simp add: avoid_query_def Let_def hash_def split: if_splits)
      have "t' = t"
      proof (rule for_loop_preserve [where P = "\<lambda>u. u = t", OF l])
        show "t = t" ..
        show "u' = t" if ia: "ia \<in> set [0 ..< unat (cnt (unat hash))]" and u: "u = t"
          and st: "avoid_step c g' hash dt io ia u = Inr u'" for ia u u'
        proof -
          from ia have "ia < unat (cnt (unat hash))" by simp
          from rebuild_grid_valid [OF b this]
          have h: "kObjectCount c \<le> g' (unat hash) ia"
            "g' (unat hash) ia < kObjectCount c + kAvoidCount c" by simp_all
          from h t have "m_Positions t ! g' (unat hash) ia = m_Positions s1 ! g' (unat hash) ia"
            "m_Positions t ! io = m_Positions s1 ! io"
            by (simp_all add: P_def)
          with far [OF h]
          have "\<not> too_close (m_Positions u ! g' (unat hash) ia) (m_Positions u ! io)"
            by (simp add: u)
          with st have "u' = u" by (rule avoid_step_far)
          with u show ?thesis by simp
        qed
      qed
      with t show ?thesis by simp
    qed
  qed
  then show ?thesis by (simp add: P_def)
qed

lemma query_hash_y0: "query_hash ub \<lparr>pos_x = a, pos_y = Fin 0\<rparr> = 2080"
  by (simp add: query_hash_eq fsub_def float_truncate_def wrap_cell_def cell_hash_def
      kCellCount_def kShiftAmount_def)

lemma AvoidanceSystem_no_reaction:
  assumes "\<not> too_close \<lparr>pos_x = Fin 0, pos_y = Fin 0\<rparr> \<lparr>pos_x = a, pos_y = Fin 0\<rparr>"
  shows "AvoidanceSystem_UpdateSystem \<lparr>kObjectCount = 1, kAvoidCount = 1\<rparr> ub
     (g, \<lparr>m_Positions = [\<lparr>pos_x = a, pos_y = Fin 0\<rparr>, \<lparr>pos_x = Fin 0, pos_y = Fin 0\<rparr>],
         m_Sprites = [sp0, sp1], m_Moves = [m0, m1], m_IdGenerator = k\<rparr>) dt
   = Inr (g(2015 := (g 2015)(0 := 1), 2079 := (g 2079)(0 := 1),
            2016 := (g 2016)(0 := 1), 2080 := (g 2080)(0 := 1)),
          \<lparr>m_Positions = [\<lparr>pos_x = a, pos_y = Fin 0\<rparr>, \<lparr>pos_x = Fin 0, pos_y = Fin 0\<rparr>],
           m_Sprites = [sp0, sp1], m_Moves = [m0, m1], m_IdGenerator = k\<rparr>)"
  using assms
  by (simp add: AvoidanceSystem_UpdateSystem_def rebuild_grid_origin [unfolded One_nat_def]
       avoid_query_def query_hash_y0 kCellCount_def avoid_step_def Let_def)

lemma too_close_origin_3: "\<not> too_close \<lparr>pos_x = Fin 0, pos_y = Fin 0\<rparr> \<lparr>pos_x = Fin 3, pos_y = Fin 0\<rparr>"
proof -
  have "\<not> flt (round32 (9 - 7088373 / 4194304)) (Fin 0)"
    by (rule flt_round32_nonneg) simp
  then show ?thesis
    by (simp add: too_close_def fsub_def kAvoidDistance_squared)
qed

lemma MoveSystem_two:
  "MoveSystem_UpdateSystem \<lparr>kObjectCount = 1, kAvoidCount = 1\<rparr>
     \<lparr>m_Positions = [p0, p1], m_Sprites = sp, m_Moves = [m0, m1], m_IdGenerator = k\<rparr> dt
   = Inr \<lparr>m_Positions = [fst (MoveSystem_body dt (p0, m0)), fst (MoveSystem_body dt (p1, m1))],
          m_Sprites = sp,
          m_Moves = [snd (MoveSystem_body dt (p0, m0)), snd (MoveSystem_body dt (p1, m1))],
          m_IdGenerator = k\<rparr>"
  by (simp add: MoveSystem_UpdateSystem_def MoveSystem_step_def upt_rec split: prod.splits)

lemma round32_11_10: "round32 (11 / 10) = Fin (9227469 / 8388608)"
  by (simp add: round32_eval)

lemma nudge_round:
  "round32 (9227469 / 8388608) = Fin (9227469 / 8388608)"
  "round32 (17616077 / 8388608) = Fin (4404019 / 2097152)"
  by (simp_all add: round32_eval)

section \<open>The scene after the initialisation\<close>

lemma reserve_shape:
  "length (m_Positions (reserve n s)) = n" "length (m_Sprites (reserve n s)) = n"
  "length (m_Moves (reserve n s)) = n" "m_IdGenerator (reserve n s) = m_IdGenerator s"
  by (simp_all add: reserve_def resize_def)

lemma init_object_step:
  assumes "length (m_Positions s) = n" "length (m_Sprites s) = n" "length (m_Moves s) = n"
    and "m_IdGenerator s < n"
  shows "\<exists>s' k'. init_object L ub8 (s, k) = Inr (s', k')
           \<and> length (m_Positions s') = n \<and> length (m_Sprites s') = n \<and> length (m_Moves s') = n
           \<and> m_IdGenerator s' = Suc (m_IdGenerator s)"
  using assms
  by (simp add: init_object_def AddEntity_def Let_def split: prod.splits)

lemma init_avoid_step:
  assumes "length (m_Positions s) = n" "length (m_Sprites s) = n" "length (m_Moves s) = n"
    and "m_IdGenerator s < n"
  shows "\<exists>s' k'. init_avoid L ub8 (s, k) = Inr (s', k')
           \<and> length (m_Positions s') = n \<and> length (m_Sprites s') = n \<and> length (m_Moves s') = n
           \<and> m_IdGenerator s' = Suc (m_IdGenerator s)"
  using assms
  by (simp add: init_avoid_def AddEntity_def Let_def split: prod.splits)

lemma game_initialize_total:
  assumes "m_IdGenerator s = 0"
  shows "\<exists>s' k'. game_initialize c L ub8 (s, k) = Inr (s', k') \<and> scene_ok c s'
           \<and> m_IdGenerator s' = kObjectCount c + kAvoidCount c"
proof -
  define n where "n = kObjectCount c + kAvoidCount c"
  define I where "I = (\<lambda>off i (sk :: Entities \<times> nat).
      length (m_Positions (fst sk)) = n \<and> length (m_Sprites (fst sk)) = n
      \<and> length (m_Moves (fst sk)) = n \<and> m_IdGenerator (fst sk) = off + i)"
  have "\<exists>sk. for_loop [0 ..< kObjectCount c] (\<lambda>i. init_object L ub8) (reserve n s, k) = Inr sk
          \<and> I 0 (kObjectCount c) sk"
  proof (rule for_loop_upt_total)
    show "I 0 0 (reserve n s, k)" using assms by (simp add: I_def reserve_shape)
    show "\<exists>s'. init_object L ub8 t = Inr s' \<and> I 0 (Suc i) s'"
      if "i < kObjectCount c" "I 0 i t" for i t
      using that init_object_step [of "fst t" n L ub8 "snd t"]
      by (cases t) (auto simp add: I_def n_def)
  qed simp
  then obtain sk1 where 1: "for_loop [0 ..< kObjectCount c] (\<lambda>i. init_object L ub8) (reserve n s, k) = Inr sk1"
    and i1: "I (kObjectCount c) 0 sk1"
    by (auto simp add: I_def)
  have "\<exists>sk. for_loop [0 ..< kAvoidCount c] (\<lambda>i. init_avoid L ub8) sk1 = Inr sk
          \<and> I (kObjectCount c) (kAvoidCount c) sk"
  proof (rule for_loop_upt_total)
    show "I (kObjectCount c) 0 sk1" by (rule i1)
    show "\<exists>s'. init_avoid L ub8 t = Inr s' \<and> I (kObjectCount c) (Suc i) s'"
      if "i < kAvoidCount c" "I (kObjectCount c) i t" for i t
      using that init_avoid_step [of "fst t" n L ub8 "snd t"]
      by (cases t) (auto simp add: I_def n_def)
  qed simp
  then obtain sk2 where 2: "for_loop [0 ..< kAvoidCount c] (\<lambda>i. init_avoid L ub8) sk1 = Inr sk2"
    and i2: "I (kObjectCount c) (kAvoidCount c) sk2"
    by blast
  from 1 2 have "game_initialize c L ub8 (s, k) = Inr (fst sk2, snd sk2)"
    by (simp add: game_initialize_def n_def)
  with i2 show ?thesis by (cases sk2) (simp add: I_def scene_ok_def n_def)
qed

section \<open>The error of a rounding\<close>

lemma rne_error: "\<bar>of_int (rne q) - q\<bar> \<le> 1 / 2"
proof -
  have "of_int \<lfloor>q\<rfloor> \<le> q" "q < of_int \<lfloor>q\<rfloor> + 1" by linarith+
  then show ?thesis by (auto simp add: rne_def Let_def)
qed

lemma abs_scale:
  fixes a s d :: rat
  assumes "0 < d"
  shows "\<bar>a * d - s\<bar> = \<bar>a - s / d\<bar> * d"
proof -
  from assms have "(a - s / d) * d = a * d - s" by (simp add: field_simps)
  then have "\<bar>a * d - s\<bar> = \<bar>(a - s / d) * d\<bar>" by simp
  also from assms have "\<dots> = \<bar>a - s / d\<bar> * d" by (simp add: abs_mult)
  finally show ?thesis .
qed

lemma round_units_error:
  assumes "0 \<le> s" "s \<le> 2 ^ 24 * 2 ^ j"
  shows "\<bar>of_int (round_units s) - s\<bar> \<le> 2 ^ j / 2"
proof (cases "s = 2 ^ 24 * 2 ^ j")
  case True
  have "round_units (of_int (2 ^ 23 * 2 ^ Suc j)) = 2 ^ 23 * 2 ^ Suc j"
    by (rule round_units_exact) simp_all
  then have "of_int (round_units s) = s" by (simp add: True)
  then show ?thesis by simp
next
  case False
  define q where "q = quantum_exp \<lfloor>s\<rfloor>"
  from False assms(2) have "s < of_int (2 ^ 24 * 2 ^ j)" by simp
  then have "\<lfloor>s\<rfloor> < 2 ^ 24 * 2 ^ j" by (simp only: floor_less_iff)
  then have qj: "q \<le> j" unfolding q_def by (rule quantum_exp_le)
  have n: "round_units s = rne (s / 2 ^ q) * 2 ^ q"
    by (simp add: round_units_def Let_def q_def)
  have "\<bar>of_int (round_units s) - s\<bar> = \<bar>of_int (rne (s / 2 ^ q)) * 2 ^ q - s\<bar>"
    by (simp add: n)
  also have "\<dots> = \<bar>of_int (rne (s / 2 ^ q)) - s / 2 ^ q\<bar> * 2 ^ q"
    by (rule abs_scale) simp
  also have "\<dots> \<le> 1 / 2 * 2 ^ q"
    by (intro mult_right_mono rne_error) simp
  also from qj have "\<dots> \<le> 1 / 2 * 2 ^ j"
    by (intro mult_left_mono power_increasing) simp_all
  finally show ?thesis by simp
qed

lemma round32_nonneg_units:
  assumes "0 \<le> r" "round32 r = Fin v"
  shows "v = of_int (round_units (r * 2 ^ 149)) / 2 ^ 149"
proof (cases "r = 0")
  case True
  with assms show ?thesis by simp
next
  case False
  with assms(1) have "0 < r" by simp
  with assms(2) show ?thesis
    by (simp add: round32_def Let_def split: if_splits)
qed

lemma round32_error:
  assumes "0 \<le> r" "r * 2 ^ 149 \<le> 2 ^ 24 * 2 ^ j" "round32 r = Fin v"
  shows "\<bar>v - r\<bar> \<le> 2 ^ j / 2 ^ 150"
proof -
  define d :: rat where "d = 2 ^ 149"
  define n where "n = round_units (r * d)"
  have d: "0 < d" by (simp add: d_def)
  from assms(1) d have "0 \<le> r * d" by simp
  moreover from assms(2) have "r * d \<le> 2 ^ 24 * 2 ^ j" by (simp only: d_def)
  ultimately have e: "\<bar>of_int n - r * d\<bar> \<le> 2 ^ j / 2"
    unfolding n_def by (rule round_units_error)
  have v: "v = of_int n / d"
    unfolding n_def d_def by (rule round32_nonneg_units [OF assms(1,3)])
  from d have "\<bar>v * d - r * d\<bar> = \<bar>v - r * d / d\<bar> * d" by (rule abs_scale)
  with d have "\<bar>v - r\<bar> * d = \<bar>of_int n - r * d\<bar>" by (simp add: v)
  with e have "\<bar>v - r\<bar> * d \<le> 2 ^ j / 2" by simp
  with d have "\<bar>v - r\<bar> \<le> 2 ^ j / 2 / d" by (simp add: pos_le_divide_eq)
  also have "2 ^ j / 2 / d = 2 ^ j / 2 ^ 150" by (simp add: d_def)
  finally show ?thesis .
qed

lemma round32_grid:
  assumes "2 ^ 23 * 2 ^ j \<le> r * 2 ^ 149" "round32 r = Fin v"
  shows "\<exists>m :: int. v = of_int m * 2 ^ j / 2 ^ 149"
proof -
  define d :: rat where "d = 2 ^ 149"
  define s where "s = r * d"
  define q where "q = quantum_exp \<lfloor>s\<rfloor>"
  have d: "0 < d" by (simp add: d_def)
  from assms(1) have s: "of_int (2 ^ 23 * 2 ^ j) \<le> s" by (simp add: s_def d_def)
  have "(0::rat) \<le> of_int (2 ^ 23 * 2 ^ j)" by simp
  with s have "0 \<le> r * d" unfolding s_def by linarith
  with d have r0: "0 \<le> r" by (simp add: zero_le_mult_iff)
  from s have "2 ^ 23 * 2 ^ j \<le> \<lfloor>s\<rfloor>" by (simp only: le_floor_iff)
  moreover have "\<lfloor>s\<rfloor> < 2 ^ 24 * 2 ^ q" unfolding q_def by (rule quantum_exp_upper)
  ultimately have "(2::int) ^ 23 * 2 ^ j < 2 ^ 23 * 2 ^ Suc q" by simp
  then have "(2::int) ^ j < 2 ^ Suc q" by simp
  then have "j < Suc q" by (simp only: power_strict_increasing_iff)
  then have jq: "j \<le> q" by simp
  have "round_units s = rne (s / 2 ^ q) * 2 ^ q"
    by (simp add: round_units_def Let_def q_def)
  also from jq have "(2::int) ^ q = 2 ^ (q - j) * 2 ^ j" by (simp flip: power_add)
  finally have "round_units s = (rne (s / 2 ^ q) * 2 ^ (q - j)) * 2 ^ j" by (simp only: mult.assoc)
  moreover have "v = of_int (round_units s) / 2 ^ 149"
    unfolding s_def d_def by (rule round32_nonneg_units [OF r0 assms(2)])
  ultimately have "v = of_int (rne (s / 2 ^ q) * 2 ^ (q - j)) * 2 ^ j / 2 ^ 149"
    by (simp only: of_int_mult of_int_power of_int_numeral)
  then show ?thesis ..
qed

lemma round32_mono_val:
  assumes "a \<le> b" "round32 a = Fin x" "round32 b = Fin y"
  shows "x \<le> y"
  using round32_mono [OF assms(1)] assms(2,3) by simp


lemma round32_err_2:
  assumes "0 \<le> r" "r \<le> 2" "round32 r = Fin v"
  shows "\<bar>v - r\<bar> \<le> 1 / 16777216"
  using round32_error [OF assms(1) _ assms(3), of 126] assms(2) by simp

lemma round32_err_1:
  assumes "0 \<le> r" "r \<le> 1" "round32 r = Fin v"
  shows "\<bar>v - r\<bar> \<le> 1 / 33554432"
  using round32_error [OF assms(1) _ assms(3), of 125] assms(2) by simp

lemma round32_err_half:
  assumes "0 \<le> r" "r \<le> 1 / 2" "round32 r = Fin v"
  shows "\<bar>v - r\<bar> \<le> 1 / 67108864"
  using round32_error [OF assms(1) _ assms(3), of 124] assms(2) by simp

lemma round32_err_quarter:
  assumes "0 \<le> r" "r \<le> 1 / 4" "round32 r = Fin v"
  shows "\<bar>v - r\<bar> \<le> 1 / 134217728"
  using round32_error [OF assms(1) _ assms(3), of 123] assms(2) by simp

lemma round32_grid_1:
  assumes "1 \<le> r" "round32 r = Fin v"
  shows "\<exists>m :: int. v = of_int m / 8388608"
  using round32_grid [OF _ assms(2), of 126] assms(1) by simp

lemma round32_grid_quarter:
  assumes "1 / 4 \<le> r" "round32 r = Fin v"
  shows "\<exists>m :: int. v = of_int m / 33554432"
  using round32_grid [OF _ assms(2), of 124] assms(1) by simp

lemma round32_half: "round32 (1 / 2) = Fin (1 / 2)"
  by (rule round32_exact [where k = 1 and j = 148]) simp_all

lemma round32_2: "round32 2 = Fin 2"
  by simp

lemma square_less_imp_less:
  fixes a b :: rat
  assumes "a * a < b * b" "0 \<le> b"
  shows "a < b"
proof (rule ccontr)
  assume "\<not> a < b"
  with assms(2) have "b * b \<le> a * a" by (intro mult_mono) simp_all
  with assms(1) show False by simp
qed

lemma square_mono:
  fixes a b :: rat
  assumes "0 \<le> a" "a \<le> b"
  shows "a * a \<le> b * b"
  using assms by (intro mult_mono) simp_all


section \<open>The proximity test and the distance\<close>

lemma round32_val_nonneg:
  assumes "0 \<le> r" "round32 r = Fin v"
  shows "0 \<le> v"
  using round32_mono_val [OF assms(1) round32_0 assms(2)] .

lemma round32_val_lt:
  assumes "round32 r = Fin v" "round32 b = Fin b" "v < b"
  shows "r < b"
proof (rule ccontr)
  assume "\<not> r < b"
  then have "b \<le> r" by simp
  from round32_mono_val [OF this assms(2,1)] assms(3) show False by simp
qed

lemma far_sum_small:
  assumes X: "0 \<le> X" "round32 X = Fin x" and Y: "0 \<le> Y" "round32 Y = Fin y"
    and A: "round32 (x * x) = Fin A" and B: "round32 (y * y) = Fin B"
    and lt: "A + B < 28353491 / 16777216" and x1: "x < 1" and y1: "y < 1"
  shows "X * X + Y * Y \<le> 169 / 100"
proof -
  have x0: "0 \<le> x" using X by (rule round32_val_nonneg)
  have y0: "0 \<le> y" using Y by (rule round32_val_nonneg)
  have "X < 1" using X(2) round32_1 x1 by (rule round32_val_lt)
  with X have eX: "\<bar>x - X\<bar> \<le> 1 / 33554432" by (intro round32_err_1) simp_all
  have "Y < 1" using Y(2) round32_1 y1 by (rule round32_val_lt)
  with Y have eY: "\<bar>y - Y\<bar> \<le> 1 / 33554432" by (intro round32_err_1) simp_all
  from x0 x1 have "x * x \<le> 1 * 1" by (intro mult_mono) simp_all
  with A x0 have eA: "\<bar>A - x * x\<bar> \<le> 1 / 33554432" by (intro round32_err_1) simp_all
  from y0 y1 have "y * y \<le> 1 * 1" by (intro mult_mono) simp_all
  with B y0 have eB: "\<bar>B - y * y\<bar> \<le> 1 / 33554432" by (intro round32_err_1) simp_all
  from eX have "X \<le> x + 1 / 33554432" by linarith
  with X(1) have "X * X \<le> (x + 1 / 33554432) * (x + 1 / 33554432)" by (rule square_mono)
  then have sx: "X * X \<le> x * x + x / 16777216 + 1 / 1125899906842624"
    by (simp add: algebra_simps)
  from eY have "Y \<le> y + 1 / 33554432" by linarith
  with Y(1) have "Y * Y \<le> (y + 1 / 33554432) * (y + 1 / 33554432)" by (rule square_mono)
  then have sy: "Y * Y \<le> y * y + y / 16777216 + 1 / 1125899906842624"
    by (simp add: algebra_simps)
  from sx sy eA eB lt x1 y1 show ?thesis by linarith
qed


lemma far_sum_big:
  assumes X: "0 \<le> X" "round32 X = Fin x" and Y: "0 \<le> Y" "round32 Y = Fin y"
    and A: "round32 (x * x) = Fin A" and B: "round32 (y * y) = Fin B"
    and lt: "A + B < 28353491 / 16777216" and x1: "1 \<le> x"
  shows "X * X + Y * Y \<le> 169 / 100"
proof -
  have x0: "0 \<le> x" using X by (rule round32_val_nonneg)
  have y0: "0 \<le> y" using Y by (rule round32_val_nonneg)
  from x1 have "1 * 1 \<le> x * x" by (intro mult_mono) simp_all
  then have xx1: "1 \<le> x * x" by simp
  have A1: "1 \<le> A" using xx1 round32_1 A by (rule round32_mono_val)
  have "0 \<le> y * y" by simp
  then have B0: "0 \<le> B" using B by (rule round32_val_nonneg)
  from lt B0 have "A < 2" by linarith
  with A round32_2 have xx2: "x * x < 2" by (rule round32_val_lt)
  with A xx1 have eA: "\<bar>A - x * x\<bar> \<le> 1 / 16777216" by (intro round32_err_2) simp_all
  from xx2 have "x * x < 2 * 2" by simp
  then have "x < 2" by (rule square_less_imp_less) simp
  with X(2) round32_2 have "X < 2" by (rule round32_val_lt)
  with X have eX: "\<bar>x - X\<bar> \<le> 1 / 16777216" by (intro round32_err_2) simp_all
  from lt A1 have "B < 1" by linarith
  with B round32_1 have yy1: "y * y < 1" by (rule round32_val_lt)
  with B have eB: "\<bar>B - y * y\<bar> \<le> 1 / 33554432" by (intro round32_err_1) simp_all
  from yy1 have "y * y < 1 * 1" by simp
  then have y1: "y < 1" by (rule square_less_imp_less) simp
  with Y(2) round32_1 have "Y < 1" by (rule round32_val_lt)
  with Y have eY: "\<bar>y - Y\<bar> \<le> 1 / 33554432" by (intro round32_err_1) simp_all
  from eX have "X \<le> x + 1 / 16777216" by linarith
  with X(1) have "X * X \<le> (x + 1 / 16777216) * (x + 1 / 16777216)" by (rule square_mono)
  then have sx: "X * X \<le> x * x + x / 8388608 + 1 / 281474976710656"
    by (simp add: algebra_simps)
  show ?thesis
  proof (cases "1 / 2 \<le> y")
    case True
    then have "1 / 2 * (1 / 2) \<le> y * y" by (intro square_mono) simp_all
    then have "1 / 4 \<le> y * y" by simp
    then obtain n :: int where n: "B = of_int n / 33554432"
      using round32_grid_quarter [OF _ B] by blast
    obtain m :: int where m: "A = of_int m / 8388608"
      using round32_grid_1 [OF xx1 A] by blast
    have "A + B = of_int (4 * m + n) / 33554432" by (simp add: m n)
    with lt have "(of_int (4 * m + n) :: rat) < of_int 56706982" by simp
    then have "4 * m + n < 56706982" by (simp only: of_int_less_iff)
    then have "4 * m + n \<le> 56706981" by simp
    then have "(of_int (4 * m + n) :: rat) \<le> of_int 56706981" by (simp only: of_int_le_iff)
    with \<open>A + B = of_int (4 * m + n) / 33554432\<close>
    have AB: "A + B \<le> 56706981 / 33554432" by simp
    from eY have "Y \<le> y + 1 / 33554432" by linarith
    with Y(1) have "Y * Y \<le> (y + 1 / 33554432) * (y + 1 / 33554432)" by (rule square_mono)
    then have sy: "Y * Y \<le> y * y + y / 16777216 + 1 / 1125899906842624"
      by (simp add: algebra_simps)
    have "0 \<le> (x / 2 - y) * (x / 2 - y)" by simp
    then have "(x + y / 2) * (x + y / 2) \<le> 5 / 4 * (x * x + y * y)"
      by (simp add: algebra_simps)
    also have "\<dots> < 147 / 100 * (147 / 100)"
    proof -
      from eA eB AB have "x * x + y * y \<le> 169 / 100" by linarith
      then have "5 / 4 * (x * x + y * y) \<le> 5 / 4 * (169 / 100)"
        by (intro mult_left_mono) simp_all
      then show ?thesis by simp
    qed
    finally have "x + y / 2 < 147 / 100" by (rule square_less_imp_less) simp
    with sx sy eA eB AB show ?thesis by linarith
  next
    case False
    then have yh: "y < 1 / 2" by simp
    with Y(2) round32_half have "Y < 1 / 2" by (rule round32_val_lt)
    with Y have eY': "\<bar>y - Y\<bar> \<le> 1 / 67108864" by (intro round32_err_half) simp_all
    from y0 yh have "y * y \<le> 1 / 2 * (1 / 2)" by (intro square_mono) simp_all
    with B have eB': "\<bar>B - y * y\<bar> \<le> 1 / 134217728" by (intro round32_err_quarter) simp_all
    from eY' have "Y \<le> y + 1 / 67108864" by linarith
    with Y(1) have "Y * Y \<le> (y + 1 / 67108864) * (y + 1 / 67108864)" by (rule square_mono)
    then have sy: "Y * Y \<le> y * y + y / 33554432 + 1 / 4503599627370496"
      by (simp add: algebra_simps)
    from eA lt B0 have "x * x < 131 / 100 * (131 / 100)" by linarith
    then have "x < 131 / 100" by (rule square_less_imp_less) simp
    with sx sy eA eB' lt yh show ?thesis by linarith
  qed
qed

lemma far_sum:
  assumes X: "0 \<le> X" "round32 X = Fin x" and Y: "0 \<le> Y" "round32 Y = Fin y"
    and A: "round32 (x * x) = Fin A" and B: "round32 (y * y) = Fin B"
    and lt: "A + B < 28353491 / 16777216"
  shows "X * X + Y * Y \<le> 169 / 100"
proof -
  consider "1 \<le> x" | "1 \<le> y" | "x < 1" "y < 1" by linarith
  then show ?thesis
  proof cases
    case 1
    with assms show ?thesis by (rule far_sum_big)
  next
    case 2
    from lt have "B + A < 28353491 / 16777216" by (simp add: add.commute)
    with Y X B A have "Y * Y + X * X \<le> 169 / 100" using 2 by (rule far_sum_big)
    then show ?thesis by (simp add: add.commute)
  next
    case 3
    with assms show ?thesis by (rule far_sum_small)
  qed
qed


lemma round32_abs:
  assumes "round32 r = Fin v"
  shows "round32 \<bar>r\<bar> = Fin \<bar>v\<bar>"
proof -
  define n where "n = round_units (\<bar>r\<bar> * 2 ^ 149)"
  define N :: int where "N = 2 ^ 277"
  define D :: rat where "D = 2 ^ 149"
  have D: "0 < D" by (simp add: D_def)
  have n0: "0 \<le> n" unfolding n_def by (simp add: round_units_nonneg)
  have R: "round32 r = (if N \<le> n then (if r < 0 then NInf else PInf)
                        else Fin (sgn r * of_int n / D))"
    unfolding round32_def Let_def n_def N_def D_def ..
  have R': "round32 \<bar>r\<bar> = (if N \<le> n then (if \<bar>r\<bar> < 0 then NInf else PInf)
                        else Fin (sgn \<bar>r\<bar> * of_int n / D))"
    unfolding round32_def Let_def n_def N_def D_def abs_abs ..
  from assms R have small: "\<not> N \<le> n" and v: "v = sgn r * of_int n / D"
    by (simp_all split: if_splits)
  from n0 D have "\<bar>v\<bar> = sgn \<bar>r\<bar> * of_int n / D"
    by (simp add: v abs_mult sgn_if)
  with small show ?thesis by (simp add: R')
qed

lemma round32_threshold: "round32 (28353491 / 16777216) = Fin (7088373 / 4194304)"
  by (simp add: round32_eval)

lemma fmul_self:
  "fmul f f = NaN \<and> f = NaN \<or> fmul f f = PInf
     \<or> (\<exists>x A. f = Fin x \<and> fmul f f = Fin A \<and> round32 (x * x) = Fin A)"
proof (cases f)
  case (Fin x)
  have "\<not> x * x < 0" by (simp add: not_less)
  then have "round32 (x * x) \<noteq> NInf" by (simp add: round32_def Let_def)
  with Fin show ?thesis by (cases "round32 (x * x)") simp_all
qed simp_all

lemma far_apart_not_too_close:
  assumes "far_apart avoidposition myposition"
  shows "\<not> too_close avoidposition myposition"
proof
  assume close: "too_close avoidposition myposition"
  from assms obtain a b c d where p: "pos_x avoidposition = Fin a" "pos_y avoidposition = Fin b"
      "pos_x myposition = Fin c" "pos_y myposition = Fin d"
    and far: "(13 / 10) ^ 2 < (a - c) ^ 2 + (b - d) ^ 2"
    by (auto simp add: far_apart_def split: float.splits)
  define dx where "dx = round32 (a - c)"
  define dy where "dy = round32 (b - d)"
  from close have t: "flt (fadd (fmul dx dx) (fmul dy dy)) (Fin (7088373 / 4194304))"
    by (simp add: too_close_iff p fsub_def dx_def dy_def kAvoidDistance_squared)
  have nx: "dx \<noteq> NaN" and ny: "dy \<noteq> NaN" by (simp_all add: dx_def dy_def)
  from fmul_self [of dx] nx t fmul_self [of dy] ny
  obtain x A y B where x: "dx = Fin x" "fmul dx dx = Fin A" "round32 (x * x) = Fin A"
    and y: "dy = Fin y" "fmul dy dy = Fin B" "round32 (y * y) = Fin B"
    by (cases "fmul dx dx"; cases "fmul dy dy") auto
  have lt: "A + B < 28353491 / 16777216"
  proof (rule ccontr)
    assume "\<not> A + B < 28353491 / 16777216"
    then have "28353491 / 16777216 \<le> A + B" by simp
    then have "fle (round32 (28353491 / 16777216)) (round32 (A + B))" by (rule round32_mono)
    with t show False
      by (cases "round32 (A + B)") (simp_all add: x y round32_threshold)
  qed
  have X: "round32 \<bar>a - c\<bar> = Fin \<bar>x\<bar>"
    using x(1) unfolding dx_def by (rule round32_abs)
  have Y: "round32 \<bar>b - d\<bar> = Fin \<bar>y\<bar>"
    using y(1) unfolding dy_def by (rule round32_abs)
  have "\<bar>a - c\<bar> * \<bar>a - c\<bar> + \<bar>b - d\<bar> * \<bar>b - d\<bar> \<le> 169 / 100"
    by (rule far_sum [OF _ X _ Y _ _ lt]) (simp_all add: x y)
  with far show False by (simp add: power2_eq_square)
qed

section \<open>A small step near the origin\<close>

lemma is_float32_eighths:
  "is_float32 (1 / 8)" "is_float32 (- 1 / 8)" "is_float32 (9 / 8)" "is_float32 (7 / 8)"
  "is_float32 (511 / 8)" "is_float32 (513 / 8)"
  "is_float32 (3 / 2)" "is_float32 (- 3 / 2)" "is_float32 (259 / 2)" "is_float32 (253 / 2)"
  "is_float32 (131 / 2)" "is_float32 (125 / 2)"
  "is_float32 (- 5 / 4)" "is_float32 (- 3 / 4)" "is_float32 (1 / 4)" "is_float32 (- 1 / 4)"
  "is_float32 (25 / 16)" "is_float32 (1 / 16)" "is_float32 (13 / 8)"
  by (simp_all add: is_float32_def round32_eval)

lemma is_float32_cells:
  "is_float32 129" "is_float32 65" "is_float32 127" "is_float32 63" "is_float32 1"
  "is_float32 (- 1)" "is_float32 0"
  by (simp_all add: is_float32_def)

lemma fmul_small:
  assumes "\<bar>v * t\<bar> \<le> 1 / 8"
  obtains a where "fmul (Fin v) (Fin t) = Fin a" "- 1 / 8 \<le> a" "a \<le> 1 / 8"
proof -
  from assms have "- 1 / 8 \<le> v * t" "v * t \<le> 1 / 8" by (simp_all add: abs_le_iff)
  with is_float32_eighths(2,1) obtain a where "round32 (v * t) = Fin a" "- 1 / 8 \<le> a" "a \<le> 1 / 8"
    by (rule round32_between)
  with that show ?thesis by simp
qed

lemma MoveSystem_body_small:
  assumes st: "step_within (1 / 8) m dt"
    and fl: "is_float32 (px - 1 / 8)" "is_float32 (px + 1 / 8)"
      "is_float32 (py - 1 / 8)" "is_float32 (py + 1 / 8)"
    and inb: "- 128 \<le> px - 1 / 8" "px + 1 / 8 \<le> 128" "- 64 \<le> py - 1 / 8" "py + 1 / 8 \<le> 64"
  shows "\<exists>x y. MoveSystem_body dt (\<lparr>pos_x = Fin px, pos_y = Fin py\<rparr>, m)
                 = (\<lparr>pos_x = Fin x, pos_y = Fin y\<rparr>, m)
           \<and> px - 1 / 8 \<le> x \<and> x \<le> px + 1 / 8 \<and> py - 1 / 8 \<le> y \<and> y \<le> py + 1 / 8"
proof -
  from st obtain vx vy t where m: "velx m = Fin vx" "vely m = Fin vy" "dt = Fin t"
    and b: "\<bar>vx * t\<bar> \<le> 1 / 8" "\<bar>vy * t\<bar> \<le> 1 / 8"
    by (auto simp add: step_within_def split: float.splits)
  from b(1) obtain a where a: "fmul (Fin vx) (Fin t) = Fin a" "- 1 / 8 \<le> a" "a \<le> 1 / 8"
    by (rule fmul_small)
  from b(2) obtain b where b: "fmul (Fin vy) (Fin t) = Fin b" "- 1 / 8 \<le> b" "b \<le> 1 / 8"
    by (rule fmul_small)
  from a(2,3) have "px - 1 / 8 \<le> px + a" "px + a \<le> px + 1 / 8" by simp_all
  with fl(1,2) obtain x where x: "round32 (px + a) = Fin x" "px - 1 / 8 \<le> x" "x \<le> px + 1 / 8"
    by (rule round32_between)
  from b(2,3) have "py - 1 / 8 \<le> py + b" "py + b \<le> py + 1 / 8" by simp_all
  with fl(3,4) obtain y where y: "round32 (py + b) = Fin y" "py - 1 / 8 \<le> y" "y \<le> py + 1 / 8"
    by (rule round32_between)
  from x inb have cx: "\<not> x < - 128" "\<not> 128 < x" by simp_all
  from y inb have cy: "\<not> y < - 64" "\<not> 64 < y" by simp_all
  have X1: "fadd (Fin px) (fmul (velx m) dt) = Fin x" using a(1) x(1) by (simp add: m)
  have Y1: "fadd (Fin py) (fmul (vely m) dt) = Fin y" using b(1) y(1) by (simp add: m)
  have "MoveSystem_body dt (\<lparr>pos_x = Fin px, pos_y = Fin py\<rparr>, m)
          = (\<lparr>pos_x = Fin x, pos_y = Fin y\<rparr>, m)"
    unfolding MoveSystem_body_eq Let_def PositionComponent.simps X1 Y1
    using cx cy by simp
  with x y show ?thesis by blast
qed


lemma uint_of_float_range:
  assumes "lo \<le> v" "v \<le> hi" "0 \<le> lo" "hi < 2 ^ 32"
  shows "\<exists>n. uint_of_float ub (Fin v) = word_of_int n \<and> \<lfloor>lo\<rfloor> \<le> n \<and> n \<le> \<lfloor>hi\<rfloor>"
proof -
  from assms have "uint_of_float ub (Fin v) = word_of_int \<lfloor>v\<rfloor>"
    by (simp add: float_truncate_def)
  moreover from assms(1) have "\<lfloor>lo\<rfloor> \<le> \<lfloor>v\<rfloor>" by (rule floor_mono)
  moreover from assms(2) have "\<lfloor>v\<rfloor> \<le> \<lfloor>hi\<rfloor>" by (rule floor_mono)
  ultimately show ?thesis by blast
qed

lemma near_corner_top:
  assumes "- 1 / 8 \<le> c" "c \<le> 1 / 8"
  shows "wrap_cell (uint_of_float ub (fsub (fadd (Fin c) kAvoidDistance) (Fin (- 128))) div 4) = 32"
    and "wrap_cell (uint_of_float ub (fsub (fadd (Fin c) kAvoidDistance) (Fin (- 64))) div 2) = 32"
proof -
  from assms have "1 \<le> c + 5452595 / 4194304" "c + 5452595 / 4194304 \<le> 3 / 2" by simp_all
  with is_float32_cells(5) is_float32_eighths(7)
  obtain v where v: "round32 (c + 5452595 / 4194304) = Fin v" "1 \<le> v" "v \<le> 3 / 2"
    by (rule round32_between)
  from v(2,3) have "129 \<le> v + 128" "v + 128 \<le> 259 / 2" by simp_all
  with is_float32_cells(1) is_float32_eighths(9)
  obtain w where w: "round32 (v + 128) = Fin w" "129 \<le> w" "w \<le> 259 / 2"
    by (rule round32_between) simp_all
  from uint_of_float_range [OF w(2,3), of ub] obtain n where
    n: "uint_of_float ub (Fin w) = word_of_int n" "129 \<le> n" "n \<le> 129"
    by auto
  then have "n = 129" by simp
  with n(1) v(1) w(1)
  show "wrap_cell (uint_of_float ub (fsub (fadd (Fin c) kAvoidDistance) (Fin (- 128))) div 4) = 32"
    by (simp add: kAvoidDistance_eq fsub_def wrap_cell_def kCellCount_def kShiftAmount_def)
  from v(2,3) have "65 \<le> v + 64" "v + 64 \<le> 131 / 2" by simp_all
  with is_float32_cells(2) is_float32_eighths(11)
  obtain w' where w': "round32 (v + 64) = Fin w'" "65 \<le> w'" "w' \<le> 131 / 2"
    by (rule round32_between) simp_all
  from uint_of_float_range [OF w'(2,3), of ub] obtain n' where
    n': "uint_of_float ub (Fin w') = word_of_int n'" "65 \<le> n'" "n' \<le> 65"
    by auto
  then have "n' = 65" by simp
  with n'(1) v(1) w'(1)
  show "wrap_cell (uint_of_float ub (fsub (fadd (Fin c) kAvoidDistance) (Fin (- 64))) div 2) = 32"
    by (simp add: kAvoidDistance_eq fsub_def wrap_cell_def kCellCount_def kShiftAmount_def)
qed


lemma near_corner_bottom:
  assumes "- 1 / 8 \<le> c" "c \<le> 1 / 8"
  shows "wrap_cell (uint_of_float ub (fsub (fsub (Fin c) kAvoidDistance) (Fin (- 128))) div 4) = 31"
    and "wrap_cell (uint_of_float ub (fsub (fsub (Fin c) kAvoidDistance) (Fin (- 64))) div 2) = 31"
proof -
  from assms have "- 3 / 2 \<le> c + - (5452595 / 4194304)" "c + - (5452595 / 4194304) \<le> - 1"
    by simp_all
  with is_float32_eighths(8) is_float32_cells(6)
  obtain v where v: "round32 (c + - (5452595 / 4194304)) = Fin v" "- 3 / 2 \<le> v" "v \<le> - 1"
    by (rule round32_between)
  from v(2,3) have "253 / 2 \<le> v + 128" "v + 128 \<le> 127" by simp_all
  with is_float32_eighths(10) is_float32_cells(3)
  obtain w where w: "round32 (v + 128) = Fin w" "253 / 2 \<le> w" "w \<le> 127"
    by (rule round32_between)
  from uint_of_float_range [OF w(2,3), of ub] obtain n where
    n: "uint_of_float ub (Fin w) = word_of_int n" "126 \<le> n" "n \<le> 127"
    by auto
  then have "n = 126 \<or> n = 127" by linarith
  with n(1) v(1) w(1)
  show "wrap_cell (uint_of_float ub (fsub (fsub (Fin c) kAvoidDistance) (Fin (- 128))) div 4) = 31"
    by (auto simp add: kAvoidDistance_eq fsub_def wrap_cell_def kCellCount_def kShiftAmount_def)
  from v(2,3) have "125 / 2 \<le> v + 64" "v + 64 \<le> 63" by simp_all
  with is_float32_eighths(12) is_float32_cells(4)
  obtain w' where w': "round32 (v + 64) = Fin w'" "125 / 2 \<le> w'" "w' \<le> 63"
    by (rule round32_between)
  from uint_of_float_range [OF w'(2,3), of ub] obtain n' where
    n': "uint_of_float ub (Fin w') = word_of_int n'" "62 \<le> n'" "n' \<le> 63"
    by auto
  then have "n' = 62 \<or> n' = 63" by linarith
  with n'(1) v(1) w'(1)
  show "wrap_cell (uint_of_float ub (fsub (fsub (Fin c) kAvoidDistance) (Fin (- 64))) div 2) = 31"
    by (auto simp add: kAvoidDistance_eq fsub_def wrap_cell_def kCellCount_def kShiftAmount_def)
qed

lemma rebuild_grid_near:
  assumes "- 1 / 8 \<le> cx" "cx \<le> 1 / 8" "- 1 / 8 \<le> cy" "cy \<le> 1 / 8"
  shows "rebuild_grid \<lparr>kObjectCount = 1, kAvoidCount = 1\<rparr> ub [p, \<lparr>pos_x = Fin cx, pos_y = Fin cy\<rparr>] g
     = Inr (g(2015 := (g 2015)(0 := 1), 2079 := (g 2079)(0 := 1),
              2016 := (g 2016)(0 := 1), 2080 := (g 2080)(0 := 1)),
            (\<lambda>hash. 0)(2015 := 1, 2079 := 1, 2016 := 1, 2080 := 1))"
  by (simp add: rebuild_grid_def grid_add_def near_corner_top [OF assms(1,2)]
      near_corner_top [OF assms(3,4)] near_corner_bottom [OF assms(1,2)]
      near_corner_bottom [OF assms(3,4)] word_range_31_32 grid_insert_def
      cell_hash_def kShiftAmount_def kCellCount_def upt_rec)

lemma query_hash_near:
  assumes "- 1 / 8 \<le> y" "y \<le> 1 / 8"
  shows "query_hash ub \<lparr>pos_x = a, pos_y = Fin y\<rparr> = 2015
       \<or> query_hash ub \<lparr>pos_x = a, pos_y = Fin y\<rparr> = 2080"
proof -
  from assms have "511 / 8 \<le> y + 64" "y + 64 \<le> 513 / 8" by simp_all
  with is_float32_eighths(5,6)
  obtain w where w: "round32 (y + 64) = Fin w" "511 / 8 \<le> w" "w \<le> 513 / 8"
    by (rule round32_between)
  from uint_of_float_range [OF w(2,3), of ub] obtain n where
    n: "uint_of_float ub (Fin w) = word_of_int n" "63 \<le> n" "n \<le> 64"
    by auto
  then have "n = 63 \<or> n = 64" by linarith
  with n(1) w(1) show ?thesis
    by (auto simp add: query_hash_eq fsub_def wrap_cell_def cell_hash_def
        kCellCount_def kShiftAmount_def)
qed


lemma too_close_near:
  assumes c: "- 1 / 8 \<le> cx" "cx \<le> 1 / 8" "- 1 / 8 \<le> cy" "cy \<le> 1 / 8"
    and p: "7 / 8 \<le> x" "x \<le> 9 / 8" "- 1 / 8 \<le> y" "y \<le> 1 / 8"
  shows "too_close \<lparr>pos_x = Fin cx, pos_y = Fin cy\<rparr> \<lparr>pos_x = Fin x, pos_y = Fin y\<rparr>"
proof -
  from c p have "- 5 / 4 \<le> cx + - x" "cx + - x \<le> - 3 / 4" by simp_all
  with is_float32_eighths(13,14)
  obtain dx where dx: "round32 (cx + - x) = Fin dx" "- 5 / 4 \<le> dx" "dx \<le> - 3 / 4"
    by (rule round32_between)
  from c p have "- 1 / 4 \<le> cy + - y" "cy + - y \<le> 1 / 4" by simp_all
  with is_float32_eighths(16,15)
  obtain dy where dy: "round32 (cy + - y) = Fin dy" "- 1 / 4 \<le> dy" "dy \<le> 1 / 4"
    by (rule round32_between)
  from dx(2,3) have "(- dx) * (- dx) \<le> 5 / 4 * (5 / 4)" by (intro mult_mono) simp_all
  then have "0 \<le> dx * dx" "dx * dx \<le> 25 / 16" by simp_all
  with is_float32_cells(7) is_float32_eighths(17)
  obtain A where A: "round32 (dx * dx) = Fin A" "0 \<le> A" "A \<le> 25 / 16"
    by (rule round32_between)
  from dy(2,3) have "\<bar>dy\<bar> * \<bar>dy\<bar> \<le> 1 / 4 * (1 / 4)" by (intro mult_mono) simp_all
  then have "0 \<le> dy * dy" "dy * dy \<le> 1 / 16" by simp_all
  with is_float32_cells(7) is_float32_eighths(18)
  obtain B where B: "round32 (dy * dy) = Fin B" "0 \<le> B" "B \<le> 1 / 16"
    by (rule round32_between)
  from A B have "0 \<le> A + B" "A + B \<le> 13 / 8" by simp_all
  with is_float32_cells(7) is_float32_eighths(19)
  obtain S where S: "round32 (A + B) = Fin S" "0 \<le> S" "S \<le> 13 / 8"
    by (rule round32_between)
  from S(3) have "S < 7088373 / 4194304" by simp
  with dx(1) dy(1) A(1) B(1) S(1) show ?thesis
    by (simp add: too_close_iff fsub_def kAvoidDistance_squared)
qed

lemma AvoidanceSystem_reaction_near:
  assumes c: "- 1 / 8 \<le> cx" "cx \<le> 1 / 8" "- 1 / 8 \<le> cy" "cy \<le> 1 / 8"
    and p: "7 / 8 \<le> x" "x \<le> 9 / 8" "- 1 / 8 \<le> y" "y \<le> 1 / 8"
  shows "\<exists>g' p'. AvoidanceSystem_UpdateSystem \<lparr>kObjectCount = 1, kAvoidCount = 1\<rparr> ub
     (g, \<lparr>m_Positions = [\<lparr>pos_x = Fin x, pos_y = Fin y\<rparr>, \<lparr>pos_x = Fin cx, pos_y = Fin cy\<rparr>],
         m_Sprites = [sp0, sp1], m_Moves = [m0, m1], m_IdGenerator = k\<rparr>) dt
   = Inr (g',
          \<lparr>m_Positions = [p', \<lparr>pos_x = Fin cx, pos_y = Fin cy\<rparr>],
           m_Sprites = [sp0\<lparr>colorR := colorR sp1, colorG := colorG sp1, colorB := colorB sp1\<rparr>, sp1],
           m_Moves = [\<lparr>velx = fneg (velx m0), vely = fneg (vely m0)\<rparr>, m1],
           m_IdGenerator = k\<rparr>)"
proof -
  note close = too_close_near [OF c p]
  note grid = rebuild_grid_near [OF c, unfolded One_nat_def]
  from query_hash_near [OF p(3,4), of ub "Fin x"] show ?thesis
  proof
    assume "query_hash ub \<lparr>pos_x = Fin x, pos_y = Fin y\<rparr> = 2015"
    then show ?thesis
      by (cases m0)
         (simp add: AvoidanceSystem_UpdateSystem_def grid avoid_query_def kCellCount_def
           avoid_step_def close Let_def)
  next
    assume "query_hash ub \<lparr>pos_x = Fin x, pos_y = Fin y\<rparr> = 2080"
    then show ?thesis
      by (cases m0)
         (simp add: AvoidanceSystem_UpdateSystem_def grid avoid_query_def kCellCount_def
           avoid_step_def close Let_def)
  qed
qed

section \<open>A sequence of updates\<close>

lemma step_within_finite:
  assumes "step_within b m dt"
  shows "finite_move m" "is_finite dt"
  using assms by (auto simp add: step_within_def finite_move_def split: float.splits)

lemma step_within_flip:
  "step_within b (m\<lparr>velx := fneg (velx m)\<rparr>) dt = step_within b m dt"
  "step_within b (m\<lparr>vely := fneg (vely m)\<rparr>) dt = step_within b m dt"
  by (cases "velx m"; cases "vely m"; cases dt; simp add: step_within_def)+

lemma position_within_finite: "position_within b p \<Longrightarrow> finite_position p"
  by (auto simp add: position_within_def finite_position_def split: float.splits)

lemma in_bounds_within:
  assumes "in_bounds p" "128 \<le> b"
  shows "position_within b p"
  using assms
  by (cases "pos_x p"; cases "pos_y p") (auto simp add: in_bounds_def position_within_def)

lemma round32_between_rounded:
  assumes "round32 a = Fin a'" "round32 b = Fin b'" "a \<le> r" "r \<le> b"
  obtains v where "round32 r = Fin v" "a' \<le> v" "v \<le> b'"
proof -
  from assms(3) have "fle (round32 a) (round32 r)" by (rule round32_mono)
  moreover from assms(4) have "fle (round32 r) (round32 b)" by (rule round32_mono)
  ultimately show ?thesis
    using assms(1,2) that by (auto elim: fle_Fin_between)
qed

lemma round32_top:
  "round32 (2 ^ 100) = Fin (2 ^ 100)" "round32 (- (2 ^ 100)) = Fin (- (2 ^ 100))"
  "round32 (2 ^ 101) = Fin (2 ^ 101)" "round32 (- (2 ^ 101)) = Fin (- (2 ^ 101))"
  "round32 (340282346638528859811704183484516925440 + 2 ^ 101) = Fin 340282346638528859811704183484516925440"
  "round32 (- 340282346638528859811704183484516925440 - 2 ^ 101) = Fin (- 340282346638528859811704183484516925440)"
  by (simp_all add: round32_eval)


lemma nudge_coordinate:
  assumes "\<bar>x\<bar> \<le> 340282346638528859811704183484516925440" "\<bar>v * t\<bar> \<le> 2 ^ 100"
  obtains x' where
    "fadd (Fin x) (fmul (fmul (fneg (Fin v)) (Fin t)) (round32 (11 / 10))) = Fin x'"
    "\<bar>x'\<bar> \<le> 340282346638528859811704183484516925440"
proof -
  from assms(2) have "- (2 ^ 100) \<le> - v * t" "- v * t \<le> 2 ^ 100" by (simp_all add: abs_le_iff)
  with round32_top(2,1) obtain a where
    a: "round32 (- v * t) = Fin a" "- (2 ^ 100) \<le> a" "a \<le> 2 ^ 100"
    by (rule round32_between_rounded)
  from a(2,3) have "\<bar>a\<bar> \<le> 2 ^ 100" by (simp add: abs_le_iff)
  then have "\<bar>a\<bar> * \<bar>9227469 / 8388608 :: rat\<bar> \<le> 2 ^ 100 * 2"
    by (intro mult_mono) simp_all
  then have "\<bar>a * (9227469 / 8388608)\<bar> \<le> 2 ^ 101" by (simp only: abs_mult) simp
  then have "- (2 ^ 101) \<le> a * (9227469 / 8388608)" "a * (9227469 / 8388608) \<le> 2 ^ 101"
    by (simp_all add: abs_le_iff)
  with round32_top(4,3) obtain b where
    b: "round32 (a * (9227469 / 8388608)) = Fin b" "- (2 ^ 101) \<le> b" "b \<le> 2 ^ 101"
    by (rule round32_between_rounded)
  from assms(1) b(2,3) have "- 340282346638528859811704183484516925440 - 2 ^ 101 \<le> x + b"
    "x + b \<le> 340282346638528859811704183484516925440 + 2 ^ 101"
    by (simp_all add: abs_le_iff)
  with round32_top(6,5) obtain x' where
    x': "round32 (x + b) = Fin x'" "- 340282346638528859811704183484516925440 \<le> x'" "x' \<le> 340282346638528859811704183484516925440"
    by (rule round32_between_rounded)
  from x'(2,3) have "\<bar>x'\<bar> \<le> 340282346638528859811704183484516925440" by (simp add: abs_le_iff)
  moreover from a(1) b(1) x'(1)
  have "fadd (Fin x) (fmul (fmul (fneg (Fin v)) (Fin t)) (round32 (11 / 10))) = Fin x'"
    by (simp add: round32_11_10)
  ultimately show ?thesis by (rule that [rotated])
qed

lemma list_all_update: "list_all P xs \<Longrightarrow> P v \<Longrightarrow> list_all P (xs[i := v])"
  by (auto simp add: list_all_iff dest: set_update_subset_insert [THEN subsetD])

lemma avoid_step_within:
  assumes r: "avoid_step c g hash dt io ia s = Inr s'"
    and p: "list_all (position_within 340282346638528859811704183484516925440) (m_Positions s)"
    and m: "list_all P (m_Moves s)"
    and st: "\<And>m. P m \<Longrightarrow> step_within (2 ^ 100) m dt"
    and fx: "\<And>m. P m \<Longrightarrow> P (m\<lparr>velx := fneg (velx m)\<rparr>)"
    and fy: "\<And>m. P m \<Longrightarrow> P (m\<lparr>vely := fneg (vely m)\<rparr>)"
  shows "list_all (position_within 340282346638528859811704183484516925440) (m_Positions s') \<and> list_all P (m_Moves s')"
proof (cases "s' = s")
  case True
  with p m show ?thesis by simp
next
  case False
  define mv where "mv = m_Moves s ! io"
  define ps where "ps = m_Positions s ! io"
  define mv' where "mv' = mv\<lparr>velx := fneg (velx mv), vely := fneg (vely mv)\<rparr>"
  define ps' where "ps' = ps\<lparr>pos_x := fadd (pos_x ps) (fmul (fmul (fneg (velx mv)) dt) (round32 (11 / 10))),
      pos_y := fadd (pos_y ps) (fmul (fmul (fneg (vely mv)) dt) (round32 (11 / 10)))\<rparr>"
  from r False have io: "io < length (m_Positions s)" "io < length (m_Moves s)"
    and s': "m_Positions s' = (m_Positions s)[io := ps']" "m_Moves s' = (m_Moves s)[io := mv']"
    by (auto simp add: avoid_step_def Let_def mv_def ps_def mv'_def ps'_def split: if_splits)
  from m io(2) have pm: "P mv" by (simp add: list_all_length mv_def)
  then have st: "step_within (2 ^ 100) mv dt" by (rule st)
  from p io(1) have pw: "position_within 340282346638528859811704183484516925440 ps"
    by (simp add: list_all_length ps_def)
  from st obtain vx vy t where v: "velx mv = Fin vx" "vely mv = Fin vy" "dt = Fin t"
    and b: "\<bar>vx * t\<bar> \<le> 2 ^ 100" "\<bar>vy * t\<bar> \<le> 2 ^ 100"
    by (auto simp add: step_within_def split: float.splits)
  from pw obtain x y where xy: "pos_x ps = Fin x" "pos_y ps = Fin y"
    and w: "\<bar>x\<bar> \<le> 340282346638528859811704183484516925440" "\<bar>y\<bar> \<le> 340282346638528859811704183484516925440"
    by (auto simp add: position_within_def split: float.splits)
  from w(1) b(1) obtain x' where x': "fadd (Fin x) (fmul (fmul (fneg (Fin vx)) (Fin t)) (round32 (11 / 10))) = Fin x'"
    "\<bar>x'\<bar> \<le> 340282346638528859811704183484516925440"
    by (rule nudge_coordinate)
  from w(2) b(2) obtain y' where y': "fadd (Fin y) (fmul (fmul (fneg (Fin vy)) (Fin t)) (round32 (11 / 10))) = Fin y'"
    "\<bar>y'\<bar> \<le> 340282346638528859811704183484516925440"
    by (rule nudge_coordinate)
  have "position_within 340282346638528859811704183484516925440 ps'"
    unfolding ps'_def v xy position_within_def using x' y' by simp
  moreover from fy [OF fx [OF pm]] have "P mv'" by (simp add: mv'_def)
  ultimately show ?thesis using p m by (simp add: s' list_all_update)
qed

lemma AvoidanceSystem_within:
  assumes r: "AvoidanceSystem_UpdateSystem c ub (g, s) dt = Inr (g', s')"
    and p: "list_all (position_within 340282346638528859811704183484516925440) (m_Positions s)"
    and m: "list_all P (m_Moves s)"
    and st: "\<And>m. P m \<Longrightarrow> step_within (2 ^ 100) m dt"
    and fx: "\<And>m. P m \<Longrightarrow> P (m\<lparr>velx := fneg (velx m)\<rparr>)"
    and fy: "\<And>m. P m \<Longrightarrow> P (m\<lparr>vely := fneg (vely m)\<rparr>)"
  shows "list_all (position_within 340282346638528859811704183484516925440) (m_Positions s') \<and> list_all P (m_Moves s')"
proof -
  define I where "I t \<longleftrightarrow> list_all (position_within 340282346638528859811704183484516925440) (m_Positions t) \<and> list_all P (m_Moves t)"
    for t :: Entities
  from r obtain gc where
    l: "for_loop [0 ..< kObjectCount c] (avoid_query c ub gc dt) s = Inr s'"
    by (auto simp add: AvoidanceSystem_UpdateSystem_def split: sum.splits)
  have "I s'"
  proof (rule for_loop_preserve [where P = I, OF l])
    show "I s" using p m by (simp add: I_def)
    show "I t'" if "I t" and q: "avoid_query c ub gc dt io t = Inr t'" for io t t'
    proof -
      from q obtain n ga hash where
        l': "for_loop [0 ..< n] (avoid_step c ga hash dt io) t = Inr t'"
        by (cases gc) (auto simp add: avoid_query_def Let_def split: if_splits)
      show ?thesis
      proof (rule for_loop_preserve [where P = I, OF l'])
        show "I t" by fact
        show "I u'" if "I u" "avoid_step c ga hash dt io ia u = Inr u'" for ia u u'
          using avoid_step_within [OF that(2) _ _ st fx fy] that(1)
          by (simp add: I_def)
      qed
    qed
  qed
  then show ?thesis by (simp add: I_def)
qed

lemma MoveSystem_moves:
  assumes ok: "scene_ok c s" and r: "MoveSystem_UpdateSystem c s dt = Inr s'"
    and m: "list_all P (m_Moves s)"
    and fx: "\<And>m. P m \<Longrightarrow> P (m\<lparr>velx := fneg (velx m)\<rparr>)"
    and fy: "\<And>m. P m \<Longrightarrow> P (m\<lparr>vely := fneg (vely m)\<rparr>)"
  shows "list_all P (m_Moves s')"
proof -
  from MoveSystem_result [OF ok, of dt] r have ok': "scene_ok c s'"
    and b: "\<And>j. j < kObjectCount c + kAvoidCount c \<Longrightarrow>
             (m_Positions s' ! j, m_Moves s' ! j) = MoveSystem_body dt (m_Positions s ! j, m_Moves s ! j)"
    by auto
  have "P (m_Moves s' ! j)" if j: "j < length (m_Moves s')" for j
  proof -
    from j ok ok' have j': "j < kObjectCount c + kAvoidCount c" "j < length (m_Moves s)"
      by (simp_all add: scene_ok_def)
    from m j'(2) have pm: "P (m_Moves s ! j)" by (simp add: list_all_length)
    have "P (snd (MoveSystem_body dt (p, mv)))" if "P mv" for p mv
    proof -
      have e: "mv\<lparr>velx := a, vely := b\<rparr> = \<lparr>velx = a, vely = b\<rparr>" for a b by (cases mv) simp
      from that fx [OF that] fy [OF that] fy [OF fx [OF that]] show ?thesis
        by (cases mv) (auto simp add: MoveSystem_body_eq Let_def)
    qed
    from this [OF pm, of "m_Positions s ! j"] b [OF j'(1)] show ?thesis
      by (metis snd_conv)
  qed
  then show ?thesis by (simp add: list_all_length)
qed


lemma game_update_empty:
  assumes "scene_ok c s" "kObjectCount c + kAvoidCount c = 0"
  shows "game_update c ub (g, s) posData spriteData dt = Inr ((g, s), posData, spriteData, 0)"
  using assms
  by (simp add: scene_ok_def game_update_def MoveSystem_UpdateSystem_def
      AvoidanceSystem_UpdateSystem_def rebuild_grid_def copy_positions_def copy_sprites_def)

lemma game_update_step:
  assumes ok: "scene_ok c s" and p: "list_all finite_position (m_Positions s)"
    and m: "list_all P (m_Moves s)"
    and st: "\<And>m. P m \<Longrightarrow> step_within (2 ^ 100) m dt"
    and fx: "\<And>m. P m \<Longrightarrow> P (m\<lparr>velx := fneg (velx m)\<rparr>)"
    and fy: "\<And>m. P m \<Longrightarrow> P (m\<lparr>vely := fneg (vely m)\<rparr>)"
    and buf: "kObjectCount c + kAvoidCount c \<le> length posData"
      "kObjectCount c + kAvoidCount c \<le> length spriteData"
  shows "\<exists>g' s' posData' spriteData'.
           game_update c ub (g, s) posData spriteData dt
             = Inr ((g', s'), posData', spriteData',
                    sint (word_of_nat (length (m_Positions s)) :: 32 word))
         \<and> scene_ok c s' \<and> list_all finite_position (m_Positions s') \<and> list_all P (m_Moves s')
         \<and> length posData' = length posData \<and> length spriteData' = length spriteData"
proof (cases "kObjectCount c + kAvoidCount c = 0")
  case True
  with ok have "m_Positions s = []" by (simp add: scene_ok_def)
  with game_update_empty [OF ok True, of ub g posData spriteData dt] ok p m show ?thesis
    by simp
next
  case False
  with ok have "m_Moves s \<noteq> []" by (auto simp add: scene_ok_def)
  then obtain m0 where "m0 \<in> set (m_Moves s)" by (cases "m_Moves s") auto
  with m have "P m0" by (simp add: list_all_iff)
  then have fin: "is_finite dt" using st step_within_finite(2) by blast
  from m have fm: "list_all finite_move (m_Moves s)"
    using step_within_finite(1) [OF st] by (auto simp add: list_all_iff)
  from MoveSystem_finite_step [OF ok p fm fin] obtain s1 where
    mv: "MoveSystem_UpdateSystem c s dt = Inr s1" and ok1: "scene_ok c s1"
    and b: "list_all in_bounds (m_Positions s1)"
    by blast
  from AvoidanceSystem_total [OF ok1 b, of ub g dt] obtain g' s' where
    a: "AvoidanceSystem_UpdateSystem c ub (g, s1) dt = Inr (g', s')"
    by blast
  from AvoidanceSystem_shape [OF a] ok1 have ok': "scene_ok c s'"
    by (simp add: same_shape_def scene_ok_def)
  with buf have l: "length (m_Positions s') \<le> length posData"
    "length (m_Sprites s') \<le> length spriteData"
    by (simp_all add: scene_ok_def)
  note u = game_update_Inr [OF mv a l]
  from ok ok' have len: "length (m_Positions s') = length (m_Positions s)"
    by (simp add: scene_ok_def)
  from b have w1: "list_all (position_within 340282346638528859811704183484516925440) (m_Positions s1)"
    by (auto simp add: list_all_iff intro: in_bounds_within)
  from MoveSystem_moves [OF ok mv m fx fy] have m1: "list_all P (m_Moves s1)" .
  from AvoidanceSystem_within [OF a w1 m1 st fx fy]
  have "list_all (position_within 340282346638528859811704183484516925440) (m_Positions s')" "list_all P (m_Moves s')"
    by simp_all
  then have "list_all finite_position (m_Positions s')" "list_all P (m_Moves s')"
    by (auto simp add: list_all_iff intro: position_within_finite)
  with u ok' l show ?thesis by (simp add: len)
qed

lemma game_run_total:
  assumes ok: "scene_ok c s" and p: "list_all finite_position (m_Positions s)"
    and m: "list_all (\<lambda>m. list_all (step_within (2 ^ 100) m) dts) (m_Moves s)"
    and buf: "kObjectCount c + kAvoidCount c \<le> length posData"
      "kObjectCount c + kAvoidCount c \<le> length spriteData"
  shows "\<exists>g' s' posData' spriteData'.
           game_run c ub (g, s) posData spriteData dts
             = Inr ((g', s'), posData', spriteData',
                    replicate (length dts) (sint (word_of_nat (length (m_Positions s)) :: 32 word)))
         \<and> scene_ok c s'"
  using assms
proof (induction dts arbitrary: g s posData spriteData)
  case Nil
  then show ?case by simp
next
  case (Cons dt dts)
  define P where "P = (\<lambda>m. list_all (step_within (2 ^ 100) m) (dt # dts))"
  from Cons.prems(3) have m: "list_all P (m_Moves s)" by (simp add: P_def)
  have st: "step_within (2 ^ 100) m dt" if "P m" for m using that by (simp add: P_def)
  have fx: "P (m\<lparr>velx := fneg (velx m)\<rparr>)" if "P m" for m
    using that by (simp add: P_def list_all_iff step_within_flip)
  have fy: "P (m\<lparr>vely := fneg (vely m)\<rparr>)" if "P m" for m
    using that by (simp add: P_def list_all_iff step_within_flip)
  from game_update_step [of c s P dt posData spriteData ub g, OF Cons.prems(1,2) m st fx fy Cons.prems(4,5)]
  obtain g1 s1 P1 S1 where
    u: "game_update c ub (g, s) posData spriteData dt
          = Inr ((g1, s1), P1, S1, sint (word_of_nat (length (m_Positions s)) :: 32 word))"
    and ok1: "scene_ok c s1" and p1: "list_all finite_position (m_Positions s1)"
    and m1: "list_all P (m_Moves s1)"
    and l: "length P1 = length posData" "length S1 = length spriteData"
    by blast
  from m1 have m1': "list_all (\<lambda>m. list_all (step_within (2 ^ 100) m) dts) (m_Moves s1)"
    by (simp add: P_def list_all_iff)
  from Cons.prems(4,5) l have buf1: "kObjectCount c + kAvoidCount c \<le> length P1"
    "kObjectCount c + kAvoidCount c \<le> length S1"
    by simp_all
  from Cons.IH [OF ok1 p1 m1' buf1, of g1] obtain g' s' P' S' where
    r: "game_run c ub (g1, s1) P1 S1 dts
          = Inr ((g', s'), P', S',
                 replicate (length dts) (sint (word_of_nat (length (m_Positions s1)) :: 32 word)))"
    and ok': "scene_ok c s'"
    by blast
  from Cons.prems(1) ok1 have "length (m_Positions s1) = length (m_Positions s)"
    by (simp add: scene_ok_def)
  with u r ok' show ?case by simp
qed

section \<open>An update with a NaN \<open>deltaTime\<close>\<close>

lemma word_range_single: "word_range x x = [x]"
  by (simp add: word_range_def)

lemma nan_cells:
  "wrap_cell (1073741823 :: 32 word) = 1073741822"
  "wrap_cell (2147483647 :: 32 word) = 2147483646"
  "unat (cell_hash (1073741822 :: 32 word) 2147483646) = 4294967294"
  by (simp_all add: wrap_cell_def cell_hash_def kCellCount_def kShiftAmount_def)

lemma rebuild_grid_NaN:
  "rebuild_grid \<lparr>kObjectCount = 1, kAvoidCount = 1\<rparr> (\<lambda>f. - 1)
     [p, \<lparr>pos_x = NaN, pos_y = NaN\<rparr>] g = Inl OutOfBounds"
  by (simp add: rebuild_grid_def grid_add_def fsub_def nan_cells word_range_single
      grid_insert_def kCellCount_def upt_rec)

lemma game_update_Inl:
  assumes "MoveSystem_UpdateSystem c s dt = Inr s1"
    and "AvoidanceSystem_UpdateSystem c ub (g, s1) dt = Inl e"
  shows "game_update c ub (g, s) posData spriteData dt = Inl e"
  using assms by (simp add: game_update_def)

section \<open>A step that overflows\<close>

lemma round32_overflow:
  "round32 (- (2 ^ 200)) = NInf" "round32 (2 ^ 200) = PInf"
  by (simp_all add: round32_eval)

lemma round32_corner:
  "round32 (- (255 / 2)) = Fin (- (255 / 2))" "round32 (- (127 / 2)) = Fin (- (127 / 2))"
  by (simp_all add: round32_eval)

lemma corner_hazard_cells:
  "wrap_cell (uint_of_float ub (fsub (fadd (Fin (- (255 / 2))) kAvoidDistance) (Fin (- 128))) div 4) = 0"
  "wrap_cell (uint_of_float ub (fsub (fadd (Fin (- (127 / 2))) kAvoidDistance) (Fin (- 64))) div 2) = 0"
  "wrap_cell (uint_of_float ub (fsub (fsub (Fin (- (255 / 2))) kAvoidDistance) (Fin (- 128))) div 4) = 0"
  "wrap_cell (uint_of_float ub (fsub (fsub (Fin (- (127 / 2))) kAvoidDistance) (Fin (- 64))) div 2) = 0"
  by (simp_all add: kAvoidDistance_eq fsub_def round32_eval float_truncate_def ceiling_def wrap_cell_def
      kCellCount_def kShiftAmount_def)


lemma word_range_0_0: "word_range 0 0 = [0]"
  by (simp add: word_range_def)

lemma rebuild_grid_corner:
  "rebuild_grid \<lparr>kObjectCount = 1, kAvoidCount = 1\<rparr> ub
     [p, \<lparr>pos_x = Fin (- (255 / 2)), pos_y = Fin (- (127 / 2))\<rparr>] g
     = Inr (g(0 := (g 0)(0 := 1)), (\<lambda>hash. 0)(0 := 1))"
  by (simp add: rebuild_grid_def grid_add_def corner_hazard_cells word_range_0_0 grid_insert_def
      cell_hash_def kShiftAmount_def kCellCount_def upt_rec)

lemma query_hash_bottom: "query_hash ub \<lparr>pos_x = a, pos_y = Fin (- 64)\<rparr> = 0"
  by (simp add: query_hash_eq fsub_def float_truncate_def wrap_cell_def cell_hash_def
      kCellCount_def kShiftAmount_def)

lemma query_hash_NaN: "unat (query_hash (\<lambda>f. - 1) \<lparr>pos_x = a, pos_y = NaN\<rparr>) = 4294967295"
  by (simp add: query_hash_eq fsub_def wrap_cell_def cell_hash_def kCellCount_def kShiftAmount_def)

lemma too_close_corner:
  "too_close \<lparr>pos_x = Fin (- (255 / 2)), pos_y = Fin (- (127 / 2))\<rparr>
     \<lparr>pos_x = Fin (- (255 / 2)), pos_y = Fin (- 64)\<rparr>"
proof -
  have "flt (round32 (1 / 4 - 7088373 / 4194304)) (Fin 0)"
    by (rule flt_round32_neg) simp
  then show ?thesis
    by (simp add: too_close_def fsub_def kAvoidDistance_squared round32_eval)
qed

lemma AvoidanceSystem_corner_reaction:
  "AvoidanceSystem_UpdateSystem \<lparr>kObjectCount = 1, kAvoidCount = 1\<rparr> ub
     (g, \<lparr>m_Positions = [\<lparr>pos_x = Fin (- (255 / 2)), pos_y = Fin (- 64)\<rparr>,
                          \<lparr>pos_x = Fin (- (255 / 2)), pos_y = Fin (- (127 / 2))\<rparr>],
         m_Sprites = [sp0, sp1],
         m_Moves = [\<lparr>velx = Fin 0, vely = Fin (2 ^ 100)\<rparr>, m1], m_IdGenerator = k\<rparr>) (Fin (2 ^ 100))
   = Inr (g(0 := (g 0)(0 := 1)),
          \<lparr>m_Positions = [\<lparr>pos_x = Fin (- (255 / 2)), pos_y = NInf\<rparr>,
                           \<lparr>pos_x = Fin (- (255 / 2)), pos_y = Fin (- (127 / 2))\<rparr>],
           m_Sprites = [sp0\<lparr>colorR := colorR sp1, colorG := colorG sp1, colorB := colorB sp1\<rparr>, sp1],
           m_Moves = [\<lparr>velx = Fin 0, vely = Fin (- (2 ^ 100))\<rparr>, m1],
           m_IdGenerator = k\<rparr>)"
  by (simp add: AvoidanceSystem_UpdateSystem_def rebuild_grid_corner [unfolded One_nat_def]
       avoid_query_def query_hash_bottom kCellCount_def avoid_step_def too_close_corner Let_def
       round32_11_10 round32_eval)

lemma AvoidanceSystem_NaN_position:
  "AvoidanceSystem_UpdateSystem \<lparr>kObjectCount = 1, kAvoidCount = 1\<rparr> (\<lambda>f. - 1)
     (g, \<lparr>m_Positions = [\<lparr>pos_x = Fin (- (255 / 2)), pos_y = NaN\<rparr>,
                          \<lparr>pos_x = Fin (- (255 / 2)), pos_y = Fin (- (127 / 2))\<rparr>],
         m_Sprites = [sp0, sp1], m_Moves = [m0, m1], m_IdGenerator = k\<rparr>) dt
   = Inl OutOfBounds"
  by (simp add: AvoidanceSystem_UpdateSystem_def rebuild_grid_corner [unfolded One_nat_def]
       avoid_query_def query_hash_NaN kCellCount_def Let_def)


text \<open>
  Finite values are not enough when a product overflows. A regular entity at
  \<open>(-127.5, 0)\<close> with velocity \<open>(0, -2 ^ 100)\<close> and a hazard at rest at \<open>(-127.5, -63.5)\<close>:
  with \<open>deltaTime = 2 ^ 100\<close> the entity is put back onto \<open>y = -64\<close>, reacts to the hazard
  and is pushed to \<open>y = -\<infinity>\<close>; in the next call, with \<open>deltaTime = - 2 ^ 100\<close>, its
  \<open>y\<close> becomes \<open>-\<infinity> + \<infinity>\<close>, a NaN, and the query indexes the counters at
  \<open>0xFFFFFFFF\<close>.
\<close>

lemma update_overflow_example:
  "game_run \<lparr>kObjectCount = 1, kAvoidCount = 1\<rparr> (\<lambda>f. - 1)
     (\<lambda>hash slot. 0,
      \<lparr>m_Positions = [\<lparr>pos_x = Fin (- (255 / 2)), pos_y = Fin 0\<rparr>,
                       \<lparr>pos_x = Fin (- (255 / 2)), pos_y = Fin (- (127 / 2))\<rparr>],
       m_Sprites = [\<lparr>colorR = 255, colorG = 255, colorB = 255, spriteIndex = 3\<rparr>,
                    \<lparr>colorR = 200, colorG = 100, colorB = 50, spriteIndex = 255\<rparr>],
       m_Moves = [\<lparr>velx = Fin 0, vely = Fin (- (2 ^ 100))\<rparr>, \<lparr>velx = Fin 0, vely = Fin 0\<rparr>],
       m_IdGenerator = 2\<rparr>)
     [\<lparr>posX = Fin 0, posY = Fin 0\<rparr>, \<lparr>posX = Fin 0, posY = Fin 0\<rparr>]
     [\<lparr>colR = 0, colG = 0, colB = 0, sprite = 0\<rparr>, \<lparr>colR = 0, colG = 0, colB = 0, sprite = 0\<rparr>]
     [Fin (2 ^ 100), Fin (- (2 ^ 100))]
   = Inl OutOfBounds"
proof -
  let ?c = "\<lparr>kObjectCount = 1, kAvoidCount = 1\<rparr>"
  let ?hz = "\<lparr>pos_x = Fin (- (255 / 2)), pos_y = Fin (- (127 / 2))\<rparr>"
  let ?sp0 = "\<lparr>colorR = 255, colorG = 255, colorB = 255, spriteIndex = 3\<rparr>"
  let ?sp0' = "\<lparr>colorR = 200, colorG = 100, colorB = 50, spriteIndex = 3\<rparr>"
  let ?sp1 = "\<lparr>colorR = 200, colorG = 100, colorB = 50, spriteIndex = 255\<rparr>"
  let ?m1 = "\<lparr>velx = Fin 0, vely = Fin 0\<rparr>"
  let ?s = "\<lparr>m_Positions = [\<lparr>pos_x = Fin (- (255 / 2)), pos_y = Fin 0\<rparr>, ?hz],
            m_Sprites = [?sp0, ?sp1],
            m_Moves = [\<lparr>velx = Fin 0, vely = Fin (- (2 ^ 100))\<rparr>, ?m1], m_IdGenerator = 2\<rparr>"
  let ?s1 = "\<lparr>m_Positions = [\<lparr>pos_x = Fin (- (255 / 2)), pos_y = Fin (- 64)\<rparr>, ?hz],
             m_Sprites = [?sp0, ?sp1],
             m_Moves = [\<lparr>velx = Fin 0, vely = Fin (2 ^ 100)\<rparr>, ?m1], m_IdGenerator = 2\<rparr>"
  let ?s2 = "\<lparr>m_Positions = [\<lparr>pos_x = Fin (- (255 / 2)), pos_y = NInf\<rparr>, ?hz],
             m_Sprites = [?sp0', ?sp1],
             m_Moves = [\<lparr>velx = Fin 0, vely = Fin (- (2 ^ 100))\<rparr>, ?m1], m_IdGenerator = 2\<rparr>"
  let ?s3 = "\<lparr>m_Positions = [\<lparr>pos_x = Fin (- (255 / 2)), pos_y = NaN\<rparr>, ?hz],
             m_Sprites = [?sp0', ?sp1],
             m_Moves = [\<lparr>velx = Fin 0, vely = Fin (- (2 ^ 100))\<rparr>, ?m1], m_IdGenerator = 2\<rparr>"
  let ?P = "[\<lparr>posX = Fin 0, posY = Fin 0\<rparr>, \<lparr>posX = Fin 0, posY = Fin 0\<rparr>]"
  let ?S = "[\<lparr>colR = 0 :: 8 word, colG = 0 :: 8 word, colB = 0 :: 8 word, sprite = 0 :: 8 word\<rparr>,
             \<lparr>colR = 0, colG = 0, colB = 0, sprite = 0\<rparr>]"
  have mv1: "MoveSystem_UpdateSystem ?c ?s (Fin (2 ^ 100)) = Inr ?s1"
    unfolding MoveSystem_two
    by (simp add: MoveSystem_body_eq Let_def round32_overflow [simplified] round32_corner)
  have av1: "AvoidanceSystem_UpdateSystem ?c (\<lambda>f. - 1) (\<lambda>hash slot. 0, ?s1) (Fin (2 ^ 100))
      = Inr ((\<lambda>hash slot. 0)(0 := ((\<lambda>hash slot. 0) 0)(0 := 1)), ?s2)"
    using AvoidanceSystem_corner_reaction [of "\<lambda>f. - 1" "\<lambda>hash slot. 0" ?sp0 ?sp1 ?m1 2]
    by simp
  have buf: "length (m_Positions ?s2) \<le> length ?P" "length (m_Sprites ?s2) \<le> length ?S"
    by simp_all
  note u1 = game_update_Inr [OF mv1 av1 buf]
  have mv2: "MoveSystem_UpdateSystem ?c ?s2 (Fin (- (2 ^ 100))) = Inr ?s3"
    unfolding MoveSystem_two
    by (simp add: MoveSystem_body_eq Let_def round32_overflow [simplified] round32_corner)
  have av2: "AvoidanceSystem_UpdateSystem ?c (\<lambda>f. - 1) (g, ?s3) (Fin (- (2 ^ 100))) = Inl OutOfBounds"
    for g
    using AvoidanceSystem_NaN_position [of g ?sp0' ?sp1 "\<lparr>velx = Fin 0, vely = Fin (- (2 ^ 100))\<rparr>" ?m1 2
      "Fin (- (2 ^ 100))"]
    by simp
  note u2 = game_update_Inl [OF mv2 av2]
  show ?thesis
    unfolding game_run.simps by (subst u1) (simp add: u2 [simplified])
qed

section \<open>The cell a regular entity looks into\<close>

text \<open>
  Claim C1. In the query of the avoidance system the variable used as the x grid
  coordinate receives the wrap-corrected y cell coordinate, so the hash of the one cell
  scanned for a regular entity is a function of the entity's y position alone: it is
  \<open>cell_hash (wrap_cell y) y\<close> for the y cell coordinate \<open>y\<close>, and changing the x position
  does not change it. It is not reliably the cell that contains the entity: the entity at
  \<open>(-100, 0)\<close> lies in cell \<open>(7, 32)\<close> and looks into cell \<open>(32, 32)\<close>.
\<close>

theorem query_cell_from_y_only:
  "query_hash ub p =
     (let y = uint_of_float ub (fsub (pos_y p) (float_of_int (yMin s_WorldBounds)))
                div kGridCellSize ! 1
      in cell_hash (wrap_cell y) y)
   \<and> query_hash ub (p\<lparr>pos_x := a\<rparr>) = query_hash ub p
   \<and> containing_cell ub \<lparr>pos_x = Fin (- 100), pos_y = Fin 0\<rparr> = (7, 32)
   \<and> query_hash ub \<lparr>pos_x = Fin (- 100), pos_y = Fin 0\<rparr> = cell_hash 32 32
   \<and> cell_hash 32 32 \<noteq> cell_hash 7 32"
proof -
  have a: "query_hash ub q =
     (let y = uint_of_float ub (fsub (pos_y q) (float_of_int (yMin s_WorldBounds)))
                div kGridCellSize ! 1
      in cell_hash (wrap_cell y) y)" for q
    by (simp add: query_hash_def Let_def cell_hash_def wrap_cell_def)
  have b: "query_hash ub (p\<lparr>pos_x := a\<rparr>) = query_hash ub p"
    by (simp add: a)
  have c: "containing_cell ub \<lparr>pos_x = Fin (- 100), pos_y = Fin 0\<rparr> = (7, 32)"
    by (simp add: containing_cell_def fsub_def float_truncate_def wrap_cell_def
        kShiftAmount_def kCellCount_def)
  have d: "query_hash ub \<lparr>pos_x = Fin (- 100), pos_y = Fin 0\<rparr> = cell_hash 32 32"
    by (simp add: a fsub_def float_truncate_def wrap_cell_def kShiftAmount_def kCellCount_def)
  have e: "cell_hash 32 32 \<noteq> cell_hash 7 32"
    by (simp add: cell_hash_def kShiftAmount_def)
  from a b c d e show ?thesis by blast
qed

section \<open>The bounds invariant of the move system\<close>

text \<open>
  Claim C2, amended. For every entity and every non-empty sequence of calls of the move
  system whose \<open>deltaTime\<close> values are finite, on a scene whose positions and velocities
  are finite, every call succeeds and the last one leaves every position with
  \<open>xMin \<le> x \<le> xMax\<close> and \<open>yMin \<le> y \<le> yMax\<close>.
\<close>

theorem MoveSystem_keeps_bounds:
  assumes "scene_ok c s" "list_all finite_position (m_Positions s)"
    "list_all finite_move (m_Moves s)" "list_all is_finite deltaTimes" "deltaTimes \<noteq> []"
  shows "\<exists>s'. MoveSystem_run c s deltaTimes = Inr s' \<and> list_all in_bounds (m_Positions s')"
  using assms
proof (induction deltaTimes arbitrary: s)
  case Nil
  then show ?case by simp
next
  case (Cons dt dts)
  from Cons.prems have "is_finite dt" by simp
  with Cons.prems(1-3) obtain s1 where
    r: "MoveSystem_UpdateSystem c s dt = Inr s1" and ok: "scene_ok c s1"
    and f: "list_all finite_position (m_Positions s1)" "list_all finite_move (m_Moves s1)"
    and b: "list_all in_bounds (m_Positions s1)"
    using MoveSystem_finite_step by blast
  show ?case
  proof (cases "dts = []")
    case True
    with r b show ?thesis by (simp add: MoveSystem_run_def)
  next
    case False
    with Cons.IH [OF ok f] Cons.prems(4)
    obtain s' where "MoveSystem_run c s1 dts = Inr s'" "list_all in_bounds (m_Positions s')"
      by auto
    with r show ?thesis by (simp add: MoveSystem_run_def)
  qed
qed

text \<open>A scene of two entities, moved twice.\<close>

theorem MoveSystem_keeps_bounds_witness:
  "\<exists>s'. MoveSystem_run \<lparr>kObjectCount = 1, kAvoidCount = 1\<rparr>
          \<lparr>m_Positions = [\<lparr>pos_x = Fin 127, pos_y = Fin 0\<rparr>, \<lparr>pos_x = Fin 0, pos_y = Fin (- 64)\<rparr>],
           m_Sprites = [\<lparr>colorR = 255, colorG = 255, colorB = 255, spriteIndex = 3\<rparr>,
                        \<lparr>colorR = 200, colorG = 100, colorB = 50, spriteIndex = 255\<rparr>],
           m_Moves = [\<lparr>velx = Fin (1 / 2), vely = Fin 0\<rparr>, \<lparr>velx = Fin 0, vely = Fin (- 1 / 8)\<rparr>],
           m_IdGenerator = 2\<rparr>
          [Fin 4, Fin (1 / 64)] = Inr s'
      \<and> list_all in_bounds (m_Positions s')"
  by (rule MoveSystem_keeps_bounds) (simp_all add: scene_ok_def finite_position_def finite_move_def)

text \<open>
  The restriction to finite values is needed: with a NaN \<open>deltaTime\<close> both coordinates
  become NaN, all four comparisons of the move system are false, and the NaN position is
  left as it is, inside no bound.
\<close>

theorem MoveSystem_NaN_deltaTime_counterexample:
  "MoveSystem_UpdateSystem \<lparr>kObjectCount = 1, kAvoidCount = 0\<rparr>
     \<lparr>m_Positions = [\<lparr>pos_x = Fin 0, pos_y = Fin 0\<rparr>],
      m_Sprites = [\<lparr>colorR = 255, colorG = 255, colorB = 255, spriteIndex = 0\<rparr>],
      m_Moves = [\<lparr>velx = Fin 1, vely = Fin 1\<rparr>],
      m_IdGenerator = 1\<rparr> NaN
   = Inr \<lparr>m_Positions = [\<lparr>pos_x = NaN, pos_y = NaN\<rparr>],
          m_Sprites = [\<lparr>colorR = 255, colorG = 255, colorB = 255, spriteIndex = 0\<rparr>],
          m_Moves = [\<lparr>velx = Fin 1, vely = Fin 1\<rparr>],
          m_IdGenerator = 1\<rparr>
   \<and> \<not> in_bounds \<lparr>pos_x = NaN, pos_y = NaN\<rparr>"
  by (simp add: MoveSystem_UpdateSystem_def MoveSystem_step_def MoveSystem_body_eq in_bounds_def)

section \<open>Reflection at the right bound\<close>

text \<open>
  Claim C6, amended. An entity at exactly \<open>x = xMax\<close> with \<open>velx > 0\<close>, moved by one call
  of the move system with \<open>deltaTime > 0\<close>, ends the call at \<open>x = xMax\<close>. Its \<open>velx\<close> has
  become negative when the rounded sum \<open>x + velx * deltaTime\<close> exceeds \<open>xMax\<close>; when the
  step is so small that the sum rounds back to \<open>xMax\<close>, \<open>velx\<close> is left unchanged.
\<close>

theorem reflection_at_xMax:
  assumes "scene_ok c s" "j < kObjectCount c + kAvoidCount c"
    and "pos_x (m_Positions s ! j) = float_of_int (xMax s_WorldBounds)"
    and "flt (Fin 0) (velx (m_Moves s ! j))" "flt (Fin 0) deltaTime"
  shows "\<exists>s'. MoveSystem_UpdateSystem c s deltaTime = Inr s'
           \<and> pos_x (m_Positions s' ! j) = float_of_int (xMax s_WorldBounds)
           \<and> (if flt (float_of_int (xMax s_WorldBounds))
                      (fadd (pos_x (m_Positions s ! j)) (fmul (velx (m_Moves s ! j)) deltaTime))
               then flt (velx (m_Moves s' ! j)) (Fin 0)
               else velx (m_Moves s' ! j) = velx (m_Moves s ! j))"
proof -
  from MoveSystem_result [OF assms(1), of deltaTime] assms(2) obtain s' where
    r: "MoveSystem_UpdateSystem c s deltaTime = Inr s'"
    and b: "(m_Positions s' ! j, m_Moves s' ! j)
              = MoveSystem_body deltaTime (m_Positions s ! j, m_Moves s ! j)"
    by blast
  define v where "v = velx (m_Moves s ! j)"
  define x1 where "x1 = fadd (Fin 128) (fmul v deltaTime)"
  from assms(4,5) have "fle (Fin 0) (fmul v deltaTime)" unfolding v_def by (rule fmul_pos)
  then have ge: "fle (Fin 128) x1" unfolding x1_def by (intro fadd_Fin_nonneg) simp_all
  then have nlt: "\<not> flt x1 (Fin (- 128))" by (cases x1) simp_all
  from assms(4) have neg: "flt (fneg v) (Fin 0)" unfolding v_def by (cases "velx (m_Moves s ! j)") simp_all
  have x: "pos_x (m_Positions s' ! j)
      = (if flt x1 (Fin (- 128)) then Fin (- 128) else if flt (Fin 128) x1 then Fin 128 else x1)"
    and vx: "velx (m_Moves s' ! j)
      = (if flt x1 (Fin (- 128)) \<or> flt (Fin 128) x1 then fneg v else v)"
    using b assms(3) by (simp_all add: MoveSystem_body_eq Let_def x1_def v_def)
  have "pos_x (m_Positions s' ! j) = Fin 128"
    using nlt fle_antisym_Fin [OF ge] by (simp add: x)
  moreover have "if flt (Fin 128) x1 then flt (velx (m_Moves s' ! j)) (Fin 0)
                 else velx (m_Moves s' ! j) = v"
    using nlt neg by (simp add: vx)
  ultimately show ?thesis
    using r assms(3) by (simp add: x1_def v_def)
qed

text \<open>An entity at \<open>x = 128\<close> with velocity 1, moved for 2 time units.\<close>

theorem reflection_at_xMax_witness:
  "\<exists>s'. MoveSystem_UpdateSystem \<lparr>kObjectCount = 1, kAvoidCount = 0\<rparr>
          \<lparr>m_Positions = [\<lparr>pos_x = Fin 128, pos_y = Fin 0\<rparr>],
           m_Sprites = [\<lparr>colorR = 255, colorG = 255, colorB = 255, spriteIndex = 0\<rparr>],
           m_Moves = [\<lparr>velx = Fin 1, vely = Fin 0\<rparr>],
           m_IdGenerator = 1\<rparr> (Fin 2) = Inr s'
      \<and> pos_x (m_Positions s' ! 0) = float_of_int (xMax s_WorldBounds)
      \<and> flt (velx (m_Moves s' ! 0)) (Fin 0)"
  using reflection_at_xMax [of "\<lparr>kObjectCount = 1, kAvoidCount = 0\<rparr>"
          "\<lparr>m_Positions = [\<lparr>pos_x = Fin 128, pos_y = Fin 0\<rparr>],
           m_Sprites = [\<lparr>colorR = 255, colorG = 255, colorB = 255, spriteIndex = 0\<rparr>],
           m_Moves = [\<lparr>velx = Fin 1, vely = Fin 0\<rparr>],
           m_IdGenerator = 1\<rparr>" 0 "Fin 2"]
  by (simp add: scene_ok_def)

text \<open>
  With \<open>velx = 0.5\<close> and \<open>deltaTime = 2 ^ -20\<close> the step \<open>2 ^ -21\<close> is less than half the
  spacing \<open>2 ^ -16\<close> of binary32 numbers at 128: the sum rounds to 128, the test
  \<open>pos.x > xMax\<close> is false and the velocity stays positive.
\<close>

theorem reflection_absorbed_counterexample:
  "MoveSystem_UpdateSystem \<lparr>kObjectCount = 1, kAvoidCount = 0\<rparr>
     \<lparr>m_Positions = [\<lparr>pos_x = float_of_int (xMax s_WorldBounds), pos_y = Fin 0\<rparr>],
      m_Sprites = [\<lparr>colorR = 255, colorG = 255, colorB = 255, spriteIndex = 0\<rparr>],
      m_Moves = [\<lparr>velx = Fin (1 / 2), vely = Fin 0\<rparr>],
      m_IdGenerator = 1\<rparr> (Fin (1 / 2 ^ 20))
   = Inr \<lparr>m_Positions = [\<lparr>pos_x = float_of_int (xMax s_WorldBounds), pos_y = Fin 0\<rparr>],
          m_Sprites = [\<lparr>colorR = 255, colorG = 255, colorB = 255, spriteIndex = 0\<rparr>],
          m_Moves = [\<lparr>velx = Fin (1 / 2), vely = Fin 0\<rparr>],
          m_IdGenerator = 1\<rparr>
   \<and> flt (Fin 0) (Fin (1 / 2)) \<and> flt (Fin 0) (Fin (1 / 2 ^ 20))
   \<and> is_float32 (1 / 2) \<and> is_float32 (1 / 2 ^ 20)
   \<and> \<not> flt (Fin (1 / 2)) (Fin 0)"
proof -
  have "MoveSystem_body (Fin (1 / 2 ^ 20))
          (\<lparr>pos_x = Fin 128, pos_y = Fin 0\<rparr>, \<lparr>velx = Fin (1 / 2), vely = Fin 0\<rparr>)
        = (\<lparr>pos_x = Fin 128, pos_y = Fin 0\<rparr>, \<lparr>velx = Fin (1 / 2), vely = Fin 0\<rparr>)"
    unfolding MoveSystem_body_eq Let_def PositionComponent.simps MoveComponent.simps
      absorbed_product absorbed_sum
    by simp
  then show ?thesis
    using is_float32_dt
    by (simp add: MoveSystem_UpdateSystem_def MoveSystem_step_def)
qed

section \<open>The capacity of the buckets\<close>

text \<open>
  Claim C4. When the hazards lie within the world bounds, the rebuild of the grid
  succeeds, so that no bucket is written beyond its \<open>kAvoidCount\<close> slots, and afterwards
  the counter of every cell is at most the number \<open>kAvoidCount\<close> of hazards (20 in
  \<open>game_constants\<close>). The entries of a bucket are pairwise different: a hazard is
  appended at most once to a cell, since the cells of its footprint have pairwise
  different hashes.
\<close>

theorem bucket_capacity:
  assumes "kObjectCount c + kAvoidCount c \<le> length positionsData"
    and "\<forall>ia. kObjectCount c \<le> ia \<and> ia < kObjectCount c + kAvoidCount c
           \<longrightarrow> in_bounds (positionsData ! ia)"
  shows "\<exists>avoidEntityGrid' activeAvoidCount'.
           rebuild_grid c ub positionsData avoidEntityGrid = Inr (avoidEntityGrid', activeAvoidCount')
         \<and> (\<forall>hash. unat (activeAvoidCount' hash) \<le> kAvoidCount c)
         \<and> (\<forall>hash. distinct (map (avoidEntityGrid' hash) [0 ..< unat (activeAvoidCount' hash)]))"
proof -
  from assms obtain g1 c1 where 1: "rebuild_grid c ub positionsData avoidEntityGrid = Inr (g1, c1)"
    "\<forall>h. unat (c1 h) \<le> kAvoidCount c"
    using rebuild_grid_in_bounds [of c positionsData ub avoidEntityGrid] by blast
  from assms obtain g2 c2 where 2: "rebuild_grid c ub positionsData avoidEntityGrid = Inr (g2, c2)"
    "\<forall>h. distinct (map (g2 h) [0 ..< unat (c2 h)])"
    using rebuild_grid_distinct [of c positionsData ub avoidEntityGrid] by blast
  from 1 2 show ?thesis by simp
qed

text \<open>Two hazards, one in the middle of the world and one in a corner.\<close>

theorem bucket_capacity_witness:
  "\<exists>avoidEntityGrid' activeAvoidCount'.
     rebuild_grid \<lparr>kObjectCount = 1, kAvoidCount = 2\<rparr> (\<lambda>f. 0)
       [\<lparr>pos_x = Fin 5, pos_y = Fin 5\<rparr>, \<lparr>pos_x = Fin 0, pos_y = Fin 0\<rparr>,
        \<lparr>pos_x = Fin 127, pos_y = Fin (- 64)\<rparr>]
       (\<lambda>hash slot. 0) = Inr (avoidEntityGrid', activeAvoidCount')
     \<and> (\<forall>hash. unat (activeAvoidCount' hash) \<le> 2)
     \<and> (\<forall>hash. distinct (map (avoidEntityGrid' hash) [0 ..< unat (activeAvoidCount' hash)]))"
  using bucket_capacity [of "\<lparr>kObjectCount = 1, kAvoidCount = 2\<rparr>"
       "[\<lparr>pos_x = Fin 5, pos_y = Fin 5\<rparr>, \<lparr>pos_x = Fin 0, pos_y = Fin 0\<rparr>,
        \<lparr>pos_x = Fin 127, pos_y = Fin (- 64)\<rparr>]" "\<lambda>f. 0" "\<lambda>hash slot. 0"]
  by (simp add: in_bounds_iff nth_Cons split: nat.splits)

section \<open>The indices into the grid\<close>

text \<open>
  Claim C10. In a call of the avoidance system on a scene whose positions all lie within
  the world bounds, every index into the grid arrays is in bounds: the call ends without
  the error \<open>OutOfBounds\<close>, which the model raises for a cell hash of \<open>64 * 64 = 4096\<close> or
  more and for a bucket slot of \<open>kAvoidCount\<close> or more, on the build side and on the query
  side. In particular the counter of every cell after the build is at most \<open>kAvoidCount\<close>,
  and the hash computed for every regular entity is below \<open>kCellCount * kCellCount\<close>.
\<close>

theorem avoidance_indices_in_bounds:
  assumes "scene_ok c s" "list_all in_bounds (m_Positions s)"
  shows "\<exists>avoidEntityGrid' activeAvoidCount s'.
           rebuild_grid c ub (m_Positions s) avoidEntityGrid = Inr (avoidEntityGrid', activeAvoidCount)
         \<and> (\<forall>hash. unat (activeAvoidCount hash) \<le> kAvoidCount c)
         \<and> (\<forall>io < kObjectCount c.
               unat (query_hash ub (m_Positions s ! io)) < unat (kCellCount * kCellCount))
         \<and> AvoidanceSystem_UpdateSystem c ub (avoidEntityGrid, s) deltaTime
               = Inr (avoidEntityGrid', s')"
  using assms by (rule AvoidanceSystem_total)

text \<open>Two regular entities, one of them in a corner of the world, and one hazard.\<close>

theorem avoidance_indices_in_bounds_witness:
  "\<exists>avoidEntityGrid' activeAvoidCount s'.
     rebuild_grid \<lparr>kObjectCount = 2, kAvoidCount = 1\<rparr> (\<lambda>f. 0)
       [\<lparr>pos_x = Fin 1, pos_y = Fin 0\<rparr>, \<lparr>pos_x = Fin (- 128), pos_y = Fin 64\<rparr>,
        \<lparr>pos_x = Fin 0, pos_y = Fin 0\<rparr>] (\<lambda>hash slot. 0)
       = Inr (avoidEntityGrid', activeAvoidCount)
     \<and> (\<forall>hash. unat (activeAvoidCount hash) \<le> 1)
     \<and> (\<forall>io < 2. unat (query_hash (\<lambda>f. 0)
            ([\<lparr>pos_x = Fin 1, pos_y = Fin 0\<rparr>, \<lparr>pos_x = Fin (- 128), pos_y = Fin 64\<rparr>,
              \<lparr>pos_x = Fin 0, pos_y = Fin 0\<rparr>] ! io)) < unat (kCellCount * kCellCount))
     \<and> AvoidanceSystem_UpdateSystem \<lparr>kObjectCount = 2, kAvoidCount = 1\<rparr> (\<lambda>f. 0)
          (\<lambda>hash slot. 0,
           \<lparr>m_Positions = [\<lparr>pos_x = Fin 1, pos_y = Fin 0\<rparr>, \<lparr>pos_x = Fin (- 128), pos_y = Fin 64\<rparr>,
                            \<lparr>pos_x = Fin 0, pos_y = Fin 0\<rparr>],
            m_Sprites = [\<lparr>colorR = 255, colorG = 255, colorB = 255, spriteIndex = 3\<rparr>,
                         \<lparr>colorR = 255, colorG = 255, colorB = 255, spriteIndex = 4\<rparr>,
                         \<lparr>colorR = 200, colorG = 100, colorB = 50, spriteIndex = 255\<rparr>],
            m_Moves = [\<lparr>velx = Fin (1 / 2), vely = Fin 0\<rparr>, \<lparr>velx = Fin 0, vely = Fin (1 / 2)\<rparr>,
                       \<lparr>velx = Fin 0, vely = Fin (- 1 / 8)\<rparr>],
            m_IdGenerator = 3\<rparr>) (Fin (1 / 64))
          = Inr (avoidEntityGrid', s')"
  using avoidance_indices_in_bounds [of "\<lparr>kObjectCount = 2, kAvoidCount = 1\<rparr>"
          "\<lparr>m_Positions = [\<lparr>pos_x = Fin 1, pos_y = Fin 0\<rparr>, \<lparr>pos_x = Fin (- 128), pos_y = Fin 64\<rparr>,
                            \<lparr>pos_x = Fin 0, pos_y = Fin 0\<rparr>],
            m_Sprites = [\<lparr>colorR = 255, colorG = 255, colorB = 255, spriteIndex = 3\<rparr>,
                         \<lparr>colorR = 255, colorG = 255, colorB = 255, spriteIndex = 4\<rparr>,
                         \<lparr>colorR = 200, colorG = 100, colorB = 50, spriteIndex = 255\<rparr>],
            m_Moves = [\<lparr>velx = Fin (1 / 2), vely = Fin 0\<rparr>, \<lparr>velx = Fin 0, vely = Fin (1 / 2)\<rparr>,
                       \<lparr>velx = Fin 0, vely = Fin (- 1 / 8)\<rparr>],
            m_IdGenerator = 3\<rparr>" "\<lambda>f. 0" "\<lambda>hash slot. 0" "Fin (1 / 64)"]
  by (simp add: scene_ok_def in_bounds_iff)

section \<open>The value returned by the update\<close>

text \<open>
  Claim C5, amended. \<open>game_initialize\<close> leaves every component array with
  \<open>kObjectCount + kAvoidCount\<close> elements, whatever the random numbers drawn. On a scene
  of that size whose positions are finite, every call of \<open>game_update\<close> in a sequence of
  calls returns \<open>kObjectCount + kAvoidCount\<close>, whatever the number of calls, and leaves
  the arrays at that size, provided that in every frame no entity moves by more than
  \<open>2 ^ 100\<close> on an axis (the velocities and the \<open>deltaTime\<close> values are finite and their
  products do not overflow) and that the two buffers have room for all entities. For the
  constants of the program the value is \<open>1000000 + 20 = 1000020\<close>. (Finite values alone
  are not enough, see \<open>update_overflow_example\<close>.)
\<close>

theorem update_returns_population:
  assumes "scene_ok c s" "kObjectCount c + kAvoidCount c < 2 ^ 31"
    and "list_all finite_position (m_Positions s)"
    and "list_all (\<lambda>move. list_all (step_within (2 ^ 100) move) deltaTimes) (m_Moves s)"
    and "kObjectCount c + kAvoidCount c \<le> length posData"
      "kObjectCount c + kAvoidCount c \<le> length spriteData"
  shows "(\<exists>avoidEntityGrid' s' posData' spriteData'.
            game_run c ub (avoidEntityGrid, s) posData spriteData deltaTimes
              = Inr ((avoidEntityGrid', s'), posData', spriteData',
                     replicate (length deltaTimes) (int (kObjectCount c + kAvoidCount c)))
            \<and> scene_ok c s')
       \<and> int (kObjectCount game_constants + kAvoidCount game_constants) = 1000020
       \<and> (\<exists>s0 k'. game_initialize c L ub8 (s_Objects, k) = Inr (s0, k') \<and> scene_ok c s0)"
proof -
  have "m_IdGenerator s_Objects = 0" by (simp add: s_Objects_def)
  from game_initialize_total [OF this, of c L ub8 k]
  have init: "\<exists>s0 k'. game_initialize c L ub8 (s_Objects, k) = Inr (s0, k') \<and> scene_ok c s0"
    by blast
  from assms(1) have l: "length (m_Positions s) = kObjectCount c + kAvoidCount c"
    by (simp add: scene_ok_def)
  have n: "sint (word_of_nat (length (m_Positions s)) :: 32 word) = int (kObjectCount c + kAvoidCount c)"
    unfolding l using assms(2) by (rule sint_population)
  from game_run_total [OF assms(1,3,4,5,6), of ub avoidEntityGrid]
  have "\<exists>avoidEntityGrid' s' posData' spriteData'.
            game_run c ub (avoidEntityGrid, s) posData spriteData deltaTimes
              = Inr ((avoidEntityGrid', s'), posData', spriteData',
                     replicate (length deltaTimes) (int (kObjectCount c + kAvoidCount c)))
            \<and> scene_ok c s'"
    by (simp only: n)
  with init show ?thesis by (simp add: game_constants_def)
qed

text \<open>
  A scene of the size of the program's, with the buffers of \<open>kMaxSpriteCount\<close> elements,
  updated three times.
\<close>

theorem update_returns_population_witness:
  "\<exists>avoidEntityGrid' s' posData' spriteData'.
     game_run game_constants (\<lambda>f. 0)
       (\<lambda>hash slot. 0,
        \<lparr>m_Positions = replicate 1000020 \<lparr>pos_x = Fin 0, pos_y = Fin 0\<rparr>,
         m_Sprites = replicate 1000020 \<lparr>colorR = 255, colorG = 255, colorB = 255, spriteIndex = 7\<rparr>,
         m_Moves = replicate 1000020 \<lparr>velx = Fin (1 / 2), vely = Fin 0\<rparr>,
         m_IdGenerator = 1000020\<rparr>)
       (replicate 1100000 \<lparr>posX = Fin 0, posY = Fin 0\<rparr>)
       (replicate 1100000 \<lparr>colR = 0, colG = 0, colB = 0, sprite = 0\<rparr>)
       [Fin (1 / 64), Fin (1 / 32), Fin (1 / 64)]
     = Inr ((avoidEntityGrid', s'), posData', spriteData', [1000020, 1000020, 1000020])"
  using update_returns_population [of game_constants
        "\<lparr>m_Positions = replicate 1000020 \<lparr>pos_x = Fin 0, pos_y = Fin 0\<rparr>,
         m_Sprites = replicate 1000020 \<lparr>colorR = 255, colorG = 255, colorB = 255, spriteIndex = 7\<rparr>,
         m_Moves = replicate 1000020 \<lparr>velx = Fin (1 / 2), vely = Fin 0\<rparr>,
         m_IdGenerator = 1000020\<rparr>"
        "[Fin (1 / 64), Fin (1 / 32), Fin (1 / 64)]"
        "replicate 1100000 \<lparr>posX = Fin 0, posY = Fin 0\<rparr>"
        "replicate 1100000 \<lparr>colR = 0, colG = 0, colB = 0, sprite = 0\<rparr>"
        "\<lambda>f. 0" "\<lambda>hash slot. 0"
        "\<lparr>rand = \<lambda>k. 0, RAND_MAX = 32767, cosf = \<lambda>x. Fin 1, sinf = \<lambda>x. Fin 0\<rparr>" "\<lambda>f. 0" 0]
  by (simp add: scene_ok_def game_constants_def list_all_iff finite_position_def step_within_def
      numeral_3_eq_3 del: game_run.simps) blast

text \<open>
  The restriction on \<open>deltaTime\<close> is needed: with a NaN \<open>deltaTime\<close> every position
  becomes NaN, the conversion \<open>(unsigned int)\<close> of a NaN is undefined, and where it yields
  \<open>0xFFFFFFFF\<close> the first hazard is written to \<open>avoidEntityGrid\<close> at the hash
  \<open>0xFFFFFFFE\<close>, far outside the array: the call returns no value.
\<close>

theorem update_NaN_deltaTime_counterexample:
  "game_run \<lparr>kObjectCount = 1, kAvoidCount = 1\<rparr> (\<lambda>f. - 1)
     (\<lambda>hash slot. 0,
      \<lparr>m_Positions = [\<lparr>pos_x = Fin 1, pos_y = Fin 0\<rparr>, \<lparr>pos_x = Fin 0, pos_y = Fin 0\<rparr>],
       m_Sprites = [\<lparr>colorR = 255, colorG = 255, colorB = 255, spriteIndex = 3\<rparr>,
                    \<lparr>colorR = 200, colorG = 100, colorB = 50, spriteIndex = 255\<rparr>],
       m_Moves = [\<lparr>velx = Fin (1 / 2), vely = Fin 0\<rparr>, \<lparr>velx = Fin 0, vely = Fin (- 1 / 8)\<rparr>],
       m_IdGenerator = 2\<rparr>)
     [\<lparr>posX = Fin 0, posY = Fin 0\<rparr>, \<lparr>posX = Fin 0, posY = Fin 0\<rparr>]
     [\<lparr>colR = 0, colG = 0, colB = 0, sprite = 0\<rparr>, \<lparr>colR = 0, colG = 0, colB = 0, sprite = 0\<rparr>]
     [NaN]
   = Inl OutOfBounds"
proof -
  let ?c = "\<lparr>kObjectCount = 1, kAvoidCount = 1\<rparr>"
  let ?sp = "[\<lparr>colorR = 255, colorG = 255, colorB = 255, spriteIndex = 3\<rparr>,
              \<lparr>colorR = 200, colorG = 100, colorB = 50, spriteIndex = 255\<rparr>]"
  let ?ms = "[\<lparr>velx = Fin (1 / 2), vely = Fin 0\<rparr>, \<lparr>velx = Fin 0, vely = Fin (- 1 / 8)\<rparr>]"
  let ?s1 = "\<lparr>m_Positions = [\<lparr>pos_x = NaN, pos_y = NaN\<rparr>, \<lparr>pos_x = NaN, pos_y = NaN\<rparr>],
             m_Sprites = ?sp, m_Moves = ?ms, m_IdGenerator = 2\<rparr>"
  have mv: "MoveSystem_UpdateSystem ?c
      \<lparr>m_Positions = [\<lparr>pos_x = Fin 1, pos_y = Fin 0\<rparr>, \<lparr>pos_x = Fin 0, pos_y = Fin 0\<rparr>],
       m_Sprites = ?sp, m_Moves = ?ms, m_IdGenerator = 2\<rparr> NaN = Inr ?s1"
    unfolding MoveSystem_two by (simp add: MoveSystem_body_eq Let_def)
  have av: "AvoidanceSystem_UpdateSystem ?c (\<lambda>f. - 1) (\<lambda>hash slot. 0, ?s1) NaN = Inl OutOfBounds"
    by (simp add: AvoidanceSystem_UpdateSystem_def rebuild_grid_NaN [unfolded One_nat_def])
  show ?thesis
    unfolding game_run.simps by (subst game_update_Inl [OF mv av]) simp
qed

section \<open>The sprite index\<close>

text \<open>
  Claim C9. No call of \<open>game_update\<close> changes the sprite index of any entity: after any
  number of calls the sprite indices are those of the start. (The move system leaves the
  whole sprite array as it is, see \<open>MoveSystem_sprites\<close>; a reaction of the avoidance
  system writes the three colour fields only.)
\<close>

theorem sprite_index_unchanged:
  assumes "game_run c ub (avoidEntityGrid, s) posData spriteData deltaTimes
           = Inr ((avoidEntityGrid', s'), posData', spriteData', ns)"
  shows "map spriteIndex (m_Sprites s') = map spriteIndex (m_Sprites s)"
  using game_run_shape(1) [OF assms] by (simp add: same_shape_def)

text \<open>A regular entity next to a hazard: it takes the hazard's colour and keeps its index.\<close>

theorem sprite_index_unchanged_witness:
  "\<exists>avoidEntityGrid' s' posData' spriteData' ns.
     game_run \<lparr>kObjectCount = 1, kAvoidCount = 1\<rparr> (\<lambda>f. 0)
       (\<lambda>hash slot. 0,
        \<lparr>m_Positions = [\<lparr>pos_x = Fin 1, pos_y = Fin 0\<rparr>, \<lparr>pos_x = Fin 0, pos_y = Fin 0\<rparr>],
         m_Sprites = [\<lparr>colorR = 255, colorG = 255, colorB = 255, spriteIndex = 3\<rparr>,
                      \<lparr>colorR = 200, colorG = 100, colorB = 50, spriteIndex = 255\<rparr>],
         m_Moves = [\<lparr>velx = Fin (1 / 2), vely = Fin 0\<rparr>, \<lparr>velx = Fin 0, vely = Fin (- 1 / 8)\<rparr>],
         m_IdGenerator = 2\<rparr>)
       [\<lparr>posX = Fin 0, posY = Fin 0\<rparr>, \<lparr>posX = Fin 0, posY = Fin 0\<rparr>]
       [\<lparr>colR = 0, colG = 0, colB = 0, sprite = 0\<rparr>, \<lparr>colR = 0, colG = 0, colB = 0, sprite = 0\<rparr>]
       [Fin (1 / 64)]
     = Inr ((avoidEntityGrid', s'), posData', spriteData', ns)
     \<and> map spriteIndex (m_Sprites s') = [3, 255]"
proof -
  let ?c = "\<lparr>kObjectCount = 1, kAvoidCount = 1\<rparr>"
  let ?s = "\<lparr>m_Positions = [\<lparr>pos_x = Fin 1, pos_y = Fin 0\<rparr>, \<lparr>pos_x = Fin 0, pos_y = Fin 0\<rparr>],
         m_Sprites = [\<lparr>colorR = 255, colorG = 255, colorB = 255, spriteIndex = 3\<rparr>,
                      \<lparr>colorR = 200, colorG = 100, colorB = 50, spriteIndex = 255\<rparr>],
         m_Moves = [\<lparr>velx = Fin (1 / 2), vely = Fin 0\<rparr>, \<lparr>velx = Fin 0, vely = Fin (- 1 / 8)\<rparr>],
         m_IdGenerator = 2\<rparr>"
  let ?P = "[\<lparr>posX = Fin 0, posY = Fin 0\<rparr>, \<lparr>posX = Fin 0, posY = Fin 0\<rparr>]"
  let ?S = "[\<lparr>colR = 0, colG = 0, colB = 0, sprite = 0\<rparr>, \<lparr>colR = 0, colG = 0, colB = 0, sprite = 0\<rparr>]"
  have "\<exists>g' s' posData' spriteData' n.
      game_update ?c (\<lambda>f. 0) (\<lambda>hash slot. 0, ?s) ?P ?S (Fin (1 / 64))
        = Inr ((g', s'), posData', spriteData', n)"
    by (intro game_update_total)
       (simp_all add: scene_ok_def finite_position_def finite_move_def)
  then obtain g' s' P' S' n where
    "game_update ?c (\<lambda>f. 0) (\<lambda>hash slot. 0, ?s) ?P ?S (Fin (1 / 64)) = Inr ((g', s'), P', S', n)"
    by blast
  then have r: "game_run ?c (\<lambda>f. 0) (\<lambda>hash slot. 0, ?s) ?P ?S [Fin (1 / 64)]
        = Inr ((g', s'), P', S', [n])"
    by (rule game_run_single)
  from sprite_index_unchanged [OF r] have e: "map spriteIndex (m_Sprites s') = [3, 255]"
    by simp
  show ?thesis by (intro exI conjI) (rule r, rule e)
qed

section \<open>Determinism of the update\<close>

text \<open>
  Claim C8. Two instances of the simulation with the same scene (all positions, sprites
  and velocities), run on the same buffers with the same sequence of \<open>deltaTime\<close> values,
  show the same behaviour at every step: the same position buffer, the same sprite
  buffer and the same returned values, or the same error. The update is a function of
  the scene, the buffers and \<open>deltaTime\<close>; the one piece of state it keeps besides the
  scene, the static array \<open>avoidEntityGrid\<close> with what earlier calls left in it, has no
  influence, whatever its contents in the two instances.
\<close>

theorem update_deterministic:
  "observable (game_run c ub (avoidEntityGrid1, s) posData spriteData deltaTimes)
     = observable (game_run c ub (avoidEntityGrid2, s) posData spriteData deltaTimes)"
proof (induction deltaTimes arbitrary: avoidEntityGrid1 avoidEntityGrid2 s posData spriteData)
  case Nil
  show ?case by (simp add: observable_def)
next
  case (Cons dt dts)
  note u = game_update_agree [of c ub avoidEntityGrid1 s posData spriteData dt avoidEntityGrid2]
  show ?case
  proof (cases "game_update c ub (avoidEntityGrid1, s) posData spriteData dt")
    case (Inl e)
    with u have "game_update c ub (avoidEntityGrid2, s) posData spriteData dt = Inl e"
      by (cases "game_update c ub (avoidEntityGrid2, s) posData spriteData dt") simp_all
    with Inl show ?thesis by (simp add: observable_def)
  next
    case (Inr r1)
    obtain g1' s1 P1 S1 n1 where r1: "r1 = ((g1', s1), P1, S1, n1)" by (cases r1) auto
    from u Inr r1 obtain g2' where
      r2: "game_update c ub (avoidEntityGrid2, s) posData spriteData dt = Inr ((g2', s1), P1, S1, n1)"
      by (cases "game_update c ub (avoidEntityGrid2, s) posData spriteData dt") auto
    from Cons.IH [of g1' s1 P1 S1 g2'] show ?thesis
      by (cases "game_run c ub (g1', s1) P1 S1 dts"; cases "game_run c ub (g2', s1) P1 S1 dts")
         (auto simp add: Inr r1 r2 observable_def)
  qed
qed

section \<open>The reaction to a hazard nearby\<close>

text \<open>
  Claim C3, amended. Take one hazard at \<open>(0, 0)\<close> with sprite colour \<open>(200, 100, 50)\<close>
  and one regular entity at \<open>(1, 0)\<close>, and an update in whose frame neither of them moves
  by more than \<open>1/8\<close> on an axis (velocity times \<open>deltaTime\<close>). Then the update succeeds,
  the velocity of the regular entity is the negation, on both axes, of its velocity before
  the call, and its three colour channels are \<open>(200, 100, 50)\<close>. The reaction test of the
  source, \<open>(dx * dx + dy * dy) - kAvoidDistance * kAvoidDistance < 0\<close>, holds exactly
  when the squared distance is strictly less than the squared avoidance distance, both as
  the program computes them in binary32.
\<close>

theorem proximity_reaction:
  assumes ok: "scene_ok \<lparr>kObjectCount = 1, kAvoidCount = 1\<rparr> s"
    and ps: "m_Positions s = [\<lparr>pos_x = Fin 1, pos_y = Fin 0\<rparr>, \<lparr>pos_x = Fin 0, pos_y = Fin 0\<rparr>]"
    and st: "step_within (1 / 8) (m_Moves s ! 0) deltaTime"
      "step_within (1 / 8) (m_Moves s ! 1) deltaTime"
    and col: "colorR (m_Sprites s ! 1) = 200" "colorG (m_Sprites s ! 1) = 100"
      "colorB (m_Sprites s ! 1) = 50"
    and buf: "2 \<le> length posData" "2 \<le> length spriteData"
  shows "(\<exists>avoidEntityGrid' s' posData' spriteData' n.
            game_update \<lparr>kObjectCount = 1, kAvoidCount = 1\<rparr> ub (avoidEntityGrid, s)
                posData spriteData deltaTime
              = Inr ((avoidEntityGrid', s'), posData', spriteData', n)
          \<and> velx (m_Moves s' ! 0) = fneg (velx (m_Moves s ! 0))
          \<and> vely (m_Moves s' ! 0) = fneg (vely (m_Moves s ! 0))
          \<and> colorR (m_Sprites s' ! 0) = 200 \<and> colorG (m_Sprites s' ! 0) = 100
          \<and> colorB (m_Sprites s' ! 0) = 50)
       \<and> too_close avoidposition myposition
           = flt (fadd (fmul (fsub (pos_x avoidposition) (pos_x myposition))
                             (fsub (pos_x avoidposition) (pos_x myposition)))
                       (fmul (fsub (pos_y avoidposition) (pos_y myposition))
                             (fsub (pos_y avoidposition) (pos_y myposition))))
                 (fmul kAvoidDistance kAvoidDistance)"
proof -
  let ?c = "\<lparr>kObjectCount = 1, kAvoidCount = 1\<rparr>"
  from MoveSystem_result [OF ok, of deltaTime] obtain s1 where
    mv: "MoveSystem_UpdateSystem ?c s deltaTime = Inr s1" and ok1: "scene_ok ?c s1"
    and sp: "m_Sprites s1 = m_Sprites s"
    and b0: "(m_Positions s1 ! 0, m_Moves s1 ! 0)
              = MoveSystem_body deltaTime (m_Positions s ! 0, m_Moves s ! 0)"
    and b1: "(m_Positions s1 ! 1, m_Moves s1 ! 1)
              = MoveSystem_body deltaTime (m_Positions s ! 1, m_Moves s ! 1)"
    by auto
  from MoveSystem_body_small [OF st(1), of 1 0] obtain x y where
    e0: "MoveSystem_body deltaTime (\<lparr>pos_x = Fin 1, pos_y = Fin 0\<rparr>, m_Moves s ! 0)
           = (\<lparr>pos_x = Fin x, pos_y = Fin y\<rparr>, m_Moves s ! 0)"
    and p: "7 / 8 \<le> x" "x \<le> 9 / 8" "- 1 / 8 \<le> y" "y \<le> 1 / 8"
    using is_float32_eighths by auto
  from MoveSystem_body_small [OF st(2), of 0 0] obtain cx cy where
    e1: "MoveSystem_body deltaTime (\<lparr>pos_x = Fin 0, pos_y = Fin 0\<rparr>, m_Moves s ! 1)
           = (\<lparr>pos_x = Fin cx, pos_y = Fin cy\<rparr>, m_Moves s ! 1)"
    and c: "- 1 / 8 \<le> cx" "cx \<le> 1 / 8" "- 1 / 8 \<le> cy" "cy \<le> 1 / 8"
    using is_float32_eighths by auto
  from ok1 have l: "length (m_Positions s1) = 2" "length (m_Sprites s1) = 2"
    "length (m_Moves s1) = 2"
    by (simp_all add: scene_ok_def)
  define sp0 sp1 where "sp0 = m_Sprites s ! 0" and "sp1 = m_Sprites s ! 1"
  define n0 n1 where "n0 = m_Moves s ! 0" and "n1 = m_Moves s ! 1"
  from b0 b1 e0 e1 have q: "m_Positions s1 ! 0 = \<lparr>pos_x = Fin x, pos_y = Fin y\<rparr>"
    "m_Positions s1 ! 1 = \<lparr>pos_x = Fin cx, pos_y = Fin cy\<rparr>"
    "m_Moves s1 ! 0 = n0" "m_Moves s1 ! 1 = n1"
    by (simp_all add: ps n0_def n1_def)
  have s1: "s1 = \<lparr>m_Positions = [\<lparr>pos_x = Fin x, pos_y = Fin y\<rparr>, \<lparr>pos_x = Fin cx, pos_y = Fin cy\<rparr>],
                 m_Sprites = [sp0, sp1], m_Moves = [n0, n1], m_IdGenerator = m_IdGenerator s1\<rparr>"
    using list_length_2 [OF l(1)] list_length_2 [OF l(2)] list_length_2 [OF l(3)] q
    by (cases s1) (simp add: sp0_def sp1_def sp [symmetric])
  from AvoidanceSystem_reaction_near [OF c p, of ub avoidEntityGrid sp0 sp1 n0 n1
      "m_IdGenerator s1" deltaTime]
  obtain g' p' where a: "AvoidanceSystem_UpdateSystem ?c ub (avoidEntityGrid, s1) deltaTime
      = Inr (g', \<lparr>m_Positions = [p', \<lparr>pos_x = Fin cx, pos_y = Fin cy\<rparr>],
           m_Sprites = [sp0\<lparr>colorR := colorR sp1, colorG := colorG sp1, colorB := colorB sp1\<rparr>, sp1],
           m_Moves = [\<lparr>velx = fneg (velx n0), vely = fneg (vely n0)\<rparr>, n1],
           m_IdGenerator = m_IdGenerator s1\<rparr>)"
    by (subst (asm) s1 [symmetric]) blast
  define s' where "s' = \<lparr>m_Positions = [p', \<lparr>pos_x = Fin cx, pos_y = Fin cy\<rparr>],
           m_Sprites = [sp0\<lparr>colorR := colorR sp1, colorG := colorG sp1, colorB := colorB sp1\<rparr>, sp1],
           m_Moves = [\<lparr>velx = fneg (velx n0), vely = fneg (vely n0)\<rparr>, n1],
           m_IdGenerator = m_IdGenerator s1\<rparr>"
  have s': "m_Sprites s' = [sp0\<lparr>colorR := colorR sp1, colorG := colorG sp1, colorB := colorB sp1\<rparr>, sp1]"
      "m_Moves s' = [\<lparr>velx = fneg (velx n0), vely = fneg (vely n0)\<rparr>, n1]"
      "length (m_Positions s') = 2"
    by (simp_all add: s'_def)
  from buf s' have "length (m_Positions s') \<le> length posData"
    "length (m_Sprites s') \<le> length spriteData"
    by simp_all
  from game_update_Inr [OF mv a [folded s'_def] this] have "\<exists>posData' spriteData' n.
      game_update ?c ub (avoidEntityGrid, s) posData spriteData deltaTime
        = Inr ((g', s'), posData', spriteData', n)"
    by (intro exI)
  moreover have "velx (m_Moves s' ! 0) = fneg (velx (m_Moves s ! 0))"
    "vely (m_Moves s' ! 0) = fneg (vely (m_Moves s ! 0))"
    by (simp_all add: s' n0_def)
  moreover have "colorR (m_Sprites s' ! 0) = 200" "colorG (m_Sprites s' ! 0) = 100"
    "colorB (m_Sprites s' ! 0) = 50"
    using col by (simp_all add: s' sp1_def)
  ultimately show ?thesis
    using too_close_iff [of avoidposition myposition] by blast
qed

text \<open>The scene of the claim with velocity \<open>(1/2, 1/4)\<close> and \<open>deltaTime = 1/64\<close>.\<close>

theorem proximity_reaction_witness:
  "\<exists>avoidEntityGrid' s' posData' spriteData' n.
     game_update \<lparr>kObjectCount = 1, kAvoidCount = 1\<rparr> (\<lambda>f. 0)
       (\<lambda>hash slot. 0,
        \<lparr>m_Positions = [\<lparr>pos_x = Fin 1, pos_y = Fin 0\<rparr>, \<lparr>pos_x = Fin 0, pos_y = Fin 0\<rparr>],
         m_Sprites = [\<lparr>colorR = 255, colorG = 255, colorB = 255, spriteIndex = 3\<rparr>,
                      \<lparr>colorR = 200, colorG = 100, colorB = 50, spriteIndex = 255\<rparr>],
         m_Moves = [\<lparr>velx = Fin (1 / 2), vely = Fin (1 / 4)\<rparr>, \<lparr>velx = Fin 0, vely = Fin (- 1 / 8)\<rparr>],
         m_IdGenerator = 2\<rparr>)
       [\<lparr>posX = Fin 0, posY = Fin 0\<rparr>, \<lparr>posX = Fin 0, posY = Fin 0\<rparr>]
       [\<lparr>colR = 0, colG = 0, colB = 0, sprite = 0\<rparr>, \<lparr>colR = 0, colG = 0, colB = 0, sprite = 0\<rparr>]
       (Fin (1 / 64))
     = Inr ((avoidEntityGrid', s'), posData', spriteData', n)
     \<and> velx (m_Moves s' ! 0) = Fin (- 1 / 2) \<and> vely (m_Moves s' ! 0) = Fin (- 1 / 4)
     \<and> colorR (m_Sprites s' ! 0) = 200 \<and> colorG (m_Sprites s' ! 0) = 100
     \<and> colorB (m_Sprites s' ! 0) = 50"
  using proximity_reaction [of
      "\<lparr>m_Positions = [\<lparr>pos_x = Fin 1, pos_y = Fin 0\<rparr>, \<lparr>pos_x = Fin 0, pos_y = Fin 0\<rparr>],
         m_Sprites = [\<lparr>colorR = 255, colorG = 255, colorB = 255, spriteIndex = 3\<rparr>,
                      \<lparr>colorR = 200, colorG = 100, colorB = 50, spriteIndex = 255\<rparr>],
         m_Moves = [\<lparr>velx = Fin (1 / 2), vely = Fin (1 / 4)\<rparr>, \<lparr>velx = Fin 0, vely = Fin (- 1 / 8)\<rparr>],
         m_IdGenerator = 2\<rparr>" "Fin (1 / 64)"
      "[\<lparr>posX = Fin 0, posY = Fin 0\<rparr>, \<lparr>posX = Fin 0, posY = Fin 0\<rparr>]"
      "[\<lparr>colR = 0, colG = 0, colB = 0, sprite = 0\<rparr>, \<lparr>colR = 0, colG = 0, colB = 0, sprite = 0\<rparr>]"
      "\<lambda>f. 0" "\<lambda>hash slot. 0"]
  by (simp add: scene_ok_def step_within_def)

text \<open>
  Without the bound on the step the claim fails: with velocity \<open>(0.5, 0)\<close> and
  \<open>deltaTime = 4\<close> the regular entity is moved to \<open>(3, 0)\<close> before the avoidance system
  runs, no reaction takes place, and velocity and colour stay as they were.
\<close>

theorem proximity_reaction_counterexample:
  "observable (game_run \<lparr>kObjectCount = 1, kAvoidCount = 1\<rparr> (\<lambda>f. 0)
     (\<lambda>hash slot. 0,
      \<lparr>m_Positions = [\<lparr>pos_x = Fin 1, pos_y = Fin 0\<rparr>, \<lparr>pos_x = Fin 0, pos_y = Fin 0\<rparr>],
       m_Sprites = [\<lparr>colorR = 255, colorG = 255, colorB = 255, spriteIndex = 3\<rparr>,
                    \<lparr>colorR = 200, colorG = 100, colorB = 50, spriteIndex = 255\<rparr>],
       m_Moves = [\<lparr>velx = Fin (1 / 2), vely = Fin 0\<rparr>, \<lparr>velx = Fin 0, vely = Fin 0\<rparr>],
       m_IdGenerator = 2\<rparr>)
     [\<lparr>posX = Fin 0, posY = Fin 0\<rparr>, \<lparr>posX = Fin 0, posY = Fin 0\<rparr>]
     [\<lparr>colR = 0, colG = 0, colB = 0, sprite = 0\<rparr>, \<lparr>colR = 0, colG = 0, colB = 0, sprite = 0\<rparr>]
     [Fin 4])
   = Inr (\<lparr>m_Positions = [\<lparr>pos_x = Fin 3, pos_y = Fin 0\<rparr>, \<lparr>pos_x = Fin 0, pos_y = Fin 0\<rparr>],
           m_Sprites = [\<lparr>colorR = 255, colorG = 255, colorB = 255, spriteIndex = 3\<rparr>,
                        \<lparr>colorR = 200, colorG = 100, colorB = 50, spriteIndex = 255\<rparr>],
           m_Moves = [\<lparr>velx = Fin (1 / 2), vely = Fin 0\<rparr>, \<lparr>velx = Fin 0, vely = Fin 0\<rparr>],
           m_IdGenerator = 2\<rparr>,
          [\<lparr>posX = Fin 3, posY = Fin 0\<rparr>, \<lparr>posX = Fin 0, posY = Fin 0\<rparr>],
          [\<lparr>colR = 255, colG = 255, colB = 255, sprite = 3\<rparr>,
           \<lparr>colR = 200, colG = 100, colB = 50, sprite = 255\<rparr>],
          [2])"
proof -
  let ?c = "\<lparr>kObjectCount = 1, kAvoidCount = 1\<rparr>"
  let ?sp = "[\<lparr>colorR = 255, colorG = 255, colorB = 255, spriteIndex = 3\<rparr>,
              \<lparr>colorR = 200, colorG = 100, colorB = 50, spriteIndex = 255\<rparr>]"
  let ?ms = "[\<lparr>velx = Fin (1 / 2), vely = Fin 0\<rparr>, \<lparr>velx = Fin 0, vely = Fin 0\<rparr>]"
  let ?s1 = "\<lparr>m_Positions = [\<lparr>pos_x = Fin 3, pos_y = Fin 0\<rparr>, \<lparr>pos_x = Fin 0, pos_y = Fin 0\<rparr>],
             m_Sprites = ?sp, m_Moves = ?ms, m_IdGenerator = 2\<rparr>"
  have mv: "MoveSystem_UpdateSystem ?c
      \<lparr>m_Positions = [\<lparr>pos_x = Fin 1, pos_y = Fin 0\<rparr>, \<lparr>pos_x = Fin 0, pos_y = Fin 0\<rparr>],
       m_Sprites = ?sp, m_Moves = ?ms, m_IdGenerator = 2\<rparr> (Fin 4) = Inr ?s1"
    unfolding MoveSystem_two by (simp add: MoveSystem_body_eq Let_def)
  note av = AvoidanceSystem_no_reaction [OF too_close_origin_3, of "\<lambda>f. 0" "\<lambda>hash slot. 0"
      "\<lparr>colorR = 255, colorG = 255, colorB = 255, spriteIndex = 3\<rparr>"
      "\<lparr>colorR = 200, colorG = 100, colorB = 50, spriteIndex = 255\<rparr>"
      "\<lparr>velx = Fin (1 / 2), vely = Fin 0\<rparr>" "\<lparr>velx = Fin 0, vely = Fin 0\<rparr>" 2 "Fin 4"]
  show ?thesis
    unfolding observable_def game_run.simps
    by (subst game_update_Inr [OF mv av]) simp_all
qed

section \<open>No reaction far from the hazards\<close>

text \<open>
  Claim C7, amended. A regular entity that, at the positions which the move system pass
  of an update leaves, is farther than the avoidance distance 1.3 from every hazard
  (Euclidean distance, in exact arithmetic) has after the update the sprite it had
  before, and the velocity and the position that the move system pass gave it: the
  avoidance system changes nothing of it. The rounding of the program's test never makes
  an entity at a distance above 1.3 react.
\<close>

theorem no_false_reaction:
  assumes "MoveSystem_UpdateSystem c s deltaTime = Inr s1"
    and "game_update c ub (avoidEntityGrid, s) posData spriteData deltaTime
           = Inr ((avoidEntityGrid', s'), posData', spriteData', n)"
    and "io < kObjectCount c"
    and "\<forall>h. kObjectCount c \<le> h \<and> h < kObjectCount c + kAvoidCount c
           \<longrightarrow> far_apart (m_Positions s1 ! h) (m_Positions s1 ! io)"
  shows "m_Sprites s' ! io = m_Sprites s ! io
       \<and> m_Moves s' ! io = m_Moves s1 ! io
       \<and> m_Positions s' ! io = m_Positions s1 ! io"
proof -
  from assms(1,2) have a: "AvoidanceSystem_UpdateSystem c ub (avoidEntityGrid, s1) deltaTime
        = Inr (avoidEntityGrid', s')"
    by (auto simp add: game_update_def split: sum.splits)
  then obtain g1 cnt where
    b: "rebuild_grid c ub (m_Positions s1) avoidEntityGrid = Inr (g1, cnt)"
    and q: "for_loop [0 ..< kObjectCount c] (avoid_query c ub (g1, cnt) deltaTime) s1 = Inr s'"
    by (auto simp add: AvoidanceSystem_UpdateSystem_def split: sum.splits)
  from assms(4) have "\<not> too_close (m_Positions s1 ! h) (m_Positions s1 ! io)"
    if "kObjectCount c \<le> h" "h < kObjectCount c + kAvoidCount c" for h
    using that by (intro far_apart_not_too_close) simp
  with query_loop_far [OF b q assms(3)]
  have "m_Positions s' ! io = m_Positions s1 ! io \<and> m_Sprites s' ! io = m_Sprites s1 ! io
       \<and> m_Moves s' ! io = m_Moves s1 ! io"
    by blast
  with MoveSystem_sprites(1) [OF assms(1)] show ?thesis by simp
qed

text \<open>The regular entity is moved from \<open>(1, 0)\<close> to \<open>(3, 0)\<close>, away from the hazard at the origin.\<close>

theorem no_false_reaction_witness:
  "\<exists>avoidEntityGrid' s' posData' spriteData' n.
     game_update \<lparr>kObjectCount = 1, kAvoidCount = 1\<rparr> (\<lambda>f. 0)
       (\<lambda>hash slot. 0,
        \<lparr>m_Positions = [\<lparr>pos_x = Fin 1, pos_y = Fin 0\<rparr>, \<lparr>pos_x = Fin 0, pos_y = Fin 0\<rparr>],
         m_Sprites = [\<lparr>colorR = 255, colorG = 255, colorB = 255, spriteIndex = 3\<rparr>,
                      \<lparr>colorR = 200, colorG = 100, colorB = 50, spriteIndex = 255\<rparr>],
         m_Moves = [\<lparr>velx = Fin (1 / 2), vely = Fin 0\<rparr>, \<lparr>velx = Fin 0, vely = Fin 0\<rparr>],
         m_IdGenerator = 2\<rparr>)
       [\<lparr>posX = Fin 0, posY = Fin 0\<rparr>, \<lparr>posX = Fin 0, posY = Fin 0\<rparr>]
       [\<lparr>colR = 0, colG = 0, colB = 0, sprite = 0\<rparr>, \<lparr>colR = 0, colG = 0, colB = 0, sprite = 0\<rparr>]
       (Fin 4)
     = Inr ((avoidEntityGrid', s'), posData', spriteData', n)
     \<and> m_Sprites s' ! 0 = \<lparr>colorR = 255, colorG = 255, colorB = 255, spriteIndex = 3\<rparr>
     \<and> m_Moves s' ! 0 = \<lparr>velx = Fin (1 / 2), vely = Fin 0\<rparr>
     \<and> m_Positions s' ! 0 = \<lparr>pos_x = Fin 3, pos_y = Fin 0\<rparr>"
proof -
  let ?c = "\<lparr>kObjectCount = 1, kAvoidCount = 1\<rparr>"
  let ?sp = "[\<lparr>colorR = 255, colorG = 255, colorB = 255, spriteIndex = 3\<rparr>,
              \<lparr>colorR = 200, colorG = 100, colorB = 50, spriteIndex = 255\<rparr>]"
  let ?ms = "[\<lparr>velx = Fin (1 / 2), vely = Fin 0\<rparr>, \<lparr>velx = Fin 0, vely = Fin 0\<rparr>]"
  let ?s = "\<lparr>m_Positions = [\<lparr>pos_x = Fin 1, pos_y = Fin 0\<rparr>, \<lparr>pos_x = Fin 0, pos_y = Fin 0\<rparr>],
             m_Sprites = ?sp, m_Moves = ?ms, m_IdGenerator = 2\<rparr>"
  let ?s1 = "\<lparr>m_Positions = [\<lparr>pos_x = Fin 3, pos_y = Fin 0\<rparr>, \<lparr>pos_x = Fin 0, pos_y = Fin 0\<rparr>],
             m_Sprites = ?sp, m_Moves = ?ms, m_IdGenerator = 2\<rparr>"
  have mv: "MoveSystem_UpdateSystem ?c ?s (Fin 4) = Inr ?s1"
    unfolding MoveSystem_two by (simp add: MoveSystem_body_eq Let_def)
  note av = AvoidanceSystem_no_reaction [OF too_close_origin_3, of "\<lambda>f. 0" "\<lambda>hash slot. 0"
      "\<lparr>colorR = 255, colorG = 255, colorB = 255, spriteIndex = 3\<rparr>"
      "\<lparr>colorR = 200, colorG = 100, colorB = 50, spriteIndex = 255\<rparr>"
      "\<lparr>velx = Fin (1 / 2), vely = Fin 0\<rparr>" "\<lparr>velx = Fin 0, vely = Fin 0\<rparr>" 2 "Fin 4"]
  have buf: "length (m_Positions ?s1) \<le> length [\<lparr>posX = Fin 0, posY = Fin 0\<rparr>, \<lparr>posX = Fin 0, posY = Fin 0\<rparr>]"
    "length (m_Sprites ?s1) \<le> length [\<lparr>colR = 0 :: 8 word, colG = 0 :: 8 word, colB = 0 :: 8 word, sprite = 0 :: 8 word\<rparr>,
        \<lparr>colR = 0, colG = 0, colB = 0, sprite = 0\<rparr>]"
    by simp_all
  note u = game_update_Inr [OF mv av buf]
  have far: "\<forall>h. kObjectCount ?c \<le> h \<and> h < kObjectCount ?c + kAvoidCount ?c
           \<longrightarrow> far_apart (m_Positions ?s1 ! h) (m_Positions ?s1 ! 0)"
  proof (intro allI impI)
    fix h assume "kObjectCount ?c \<le> h \<and> h < kObjectCount ?c + kAvoidCount ?c"
    then have "h = 1" by simp
    then show "far_apart (m_Positions ?s1 ! h) (m_Positions ?s1 ! 0)"
      by (simp add: far_apart_def power2_eq_square)
  qed
  have io: "0 < kObjectCount ?c" by simp
  from no_false_reaction [OF mv u io far] u show ?thesis by simp
qed

text \<open>
  The distance has to be taken after the move system pass: a regular entity at \<open>(2, 0)\<close>,
  farther than 1.3 from the hazard at the origin before the call, with velocity \<open>(-1, 0)\<close>
  and \<open>deltaTime = 1\<close> is moved to \<open>(1, 0)\<close> and reacts; its velocity is flipped, its
  position pushed on and its colour replaced.
\<close>

theorem no_false_reaction_counterexample:
  "far_apart \<lparr>pos_x = Fin 0, pos_y = Fin 0\<rparr> \<lparr>pos_x = Fin 2, pos_y = Fin 0\<rparr>
   \<and> observable (game_run \<lparr>kObjectCount = 1, kAvoidCount = 1\<rparr> (\<lambda>f. 0)
     (\<lambda>hash slot. 0,
      \<lparr>m_Positions = [\<lparr>pos_x = Fin 2, pos_y = Fin 0\<rparr>, \<lparr>pos_x = Fin 0, pos_y = Fin 0\<rparr>],
       m_Sprites = [\<lparr>colorR = 255, colorG = 255, colorB = 255, spriteIndex = 3\<rparr>,
                    \<lparr>colorR = 200, colorG = 100, colorB = 50, spriteIndex = 255\<rparr>],
       m_Moves = [\<lparr>velx = Fin (- 1), vely = Fin 0\<rparr>, \<lparr>velx = Fin 0, vely = Fin 0\<rparr>],
       m_IdGenerator = 2\<rparr>)
     [\<lparr>posX = Fin 0, posY = Fin 0\<rparr>, \<lparr>posX = Fin 0, posY = Fin 0\<rparr>]
     [\<lparr>colR = 0, colG = 0, colB = 0, sprite = 0\<rparr>, \<lparr>colR = 0, colG = 0, colB = 0, sprite = 0\<rparr>]
     [Fin 1])
   = Inr (\<lparr>m_Positions = [\<lparr>pos_x = Fin (4404019 / 2097152), pos_y = Fin 0\<rparr>,
                            \<lparr>pos_x = Fin 0, pos_y = Fin 0\<rparr>],
           m_Sprites = [\<lparr>colorR = 200, colorG = 100, colorB = 50, spriteIndex = 3\<rparr>,
                        \<lparr>colorR = 200, colorG = 100, colorB = 50, spriteIndex = 255\<rparr>],
           m_Moves = [\<lparr>velx = Fin 1, vely = Fin 0\<rparr>, \<lparr>velx = Fin 0, vely = Fin 0\<rparr>],
           m_IdGenerator = 2\<rparr>,
          [\<lparr>posX = Fin (4404019 / 2097152), posY = Fin 0\<rparr>, \<lparr>posX = Fin 0, posY = Fin 0\<rparr>],
          [\<lparr>colR = 200, colG = 100, colB = 50, sprite = 3\<rparr>,
           \<lparr>colR = 200, colG = 100, colB = 50, sprite = 255\<rparr>],
          [2])"
proof -
  let ?c = "\<lparr>kObjectCount = 1, kAvoidCount = 1\<rparr>"
  let ?sp = "[\<lparr>colorR = 255, colorG = 255, colorB = 255, spriteIndex = 3\<rparr>,
              \<lparr>colorR = 200, colorG = 100, colorB = 50, spriteIndex = 255\<rparr>]"
  let ?ms = "[\<lparr>velx = Fin (- 1), vely = Fin 0\<rparr>, \<lparr>velx = Fin 0, vely = Fin 0\<rparr>]"
  let ?s1 = "\<lparr>m_Positions = [\<lparr>pos_x = Fin 1, pos_y = Fin 0\<rparr>, \<lparr>pos_x = Fin 0, pos_y = Fin 0\<rparr>],
             m_Sprites = ?sp, m_Moves = ?ms, m_IdGenerator = 2\<rparr>"
  have mv: "MoveSystem_UpdateSystem ?c
      \<lparr>m_Positions = [\<lparr>pos_x = Fin 2, pos_y = Fin 0\<rparr>, \<lparr>pos_x = Fin 0, pos_y = Fin 0\<rparr>],
       m_Sprites = ?sp, m_Moves = ?ms, m_IdGenerator = 2\<rparr> (Fin 1) = Inr ?s1"
    unfolding MoveSystem_two by (simp add: MoveSystem_body_eq Let_def)
  note av = AvoidanceSystem_reaction [of "\<lambda>f. 0" "\<lambda>hash slot. 0"
      "\<lparr>colorR = 255, colorG = 255, colorB = 255, spriteIndex = 3\<rparr>"
      "\<lparr>colorR = 200, colorG = 100, colorB = 50, spriteIndex = 255\<rparr>"
      "\<lparr>velx = Fin (- 1), vely = Fin 0\<rparr>" "\<lparr>velx = Fin 0, vely = Fin 0\<rparr>" 2 "Fin 1"]
  have "observable (game_run ?c (\<lambda>f. 0)
     (\<lambda>hash slot. 0,
      \<lparr>m_Positions = [\<lparr>pos_x = Fin 2, pos_y = Fin 0\<rparr>, \<lparr>pos_x = Fin 0, pos_y = Fin 0\<rparr>],
       m_Sprites = ?sp, m_Moves = ?ms, m_IdGenerator = 2\<rparr>)
     [\<lparr>posX = Fin 0, posY = Fin 0\<rparr>, \<lparr>posX = Fin 0, posY = Fin 0\<rparr>]
     [\<lparr>colR = 0, colG = 0, colB = 0, sprite = 0\<rparr>, \<lparr>colR = 0, colG = 0, colB = 0, sprite = 0\<rparr>]
     [Fin 1])
   = Inr (\<lparr>m_Positions = [\<lparr>pos_x = Fin (4404019 / 2097152), pos_y = Fin 0\<rparr>,
                            \<lparr>pos_x = Fin 0, pos_y = Fin 0\<rparr>],
           m_Sprites = [\<lparr>colorR = 200, colorG = 100, colorB = 50, spriteIndex = 3\<rparr>,
                        \<lparr>colorR = 200, colorG = 100, colorB = 50, spriteIndex = 255\<rparr>],
           m_Moves = [\<lparr>velx = Fin 1, vely = Fin 0\<rparr>, \<lparr>velx = Fin 0, vely = Fin 0\<rparr>],
           m_IdGenerator = 2\<rparr>,
          [\<lparr>posX = Fin (4404019 / 2097152), posY = Fin 0\<rparr>, \<lparr>posX = Fin 0, posY = Fin 0\<rparr>],
          [\<lparr>colR = 200, colG = 100, colB = 50, sprite = 3\<rparr>,
           \<lparr>colR = 200, colG = 100, colB = 50, sprite = 255\<rparr>],
          [2])"
    unfolding observable_def game_run.simps
    by (subst game_update_Inr [OF mv av]) (simp_all add: round32_11_10 nudge_round)
  moreover have "far_apart \<lparr>pos_x = Fin 0, pos_y = Fin 0\<rparr> \<lparr>pos_x = Fin 2, pos_y = Fin 0\<rparr>"
    by (simp add: far_apart_def power2_eq_square)
  ultimately show ?thesis by (rule conjI [rotated])
qed

end
